theory Spec2Isabelle
  imports Complex_Main "HOL-Library.Multiset" "HOL-Library.Signed_Division"
begin

section \<open>Single-precision arithmetic as a parameter\<close>

text \<open>
  The beat detector and the anomaly detector compute with C++ \<open>float\<close>. The model leaves
  the float type \<open>'f\<close> and its primitive operations open: every function below takes a
  record \<open>F\<close> of operations, and a theorem stated for an arbitrary \<open>F\<close> holds for any
  arithmetic, IEEE-754 single precision with its NaN included. The comparisons \<open>a > b\<close>
  and \<open>a >= b\<close> of the source are \<open>f_lt F b a\<close> and \<open>f_le F b a\<close>.
\<close>

record 'f float_ops =
  f_of_int :: "int \<Rightarrow> 'f"
  f_lit :: "real \<Rightarrow> 'f"
  f_add :: "'f \<Rightarrow> 'f \<Rightarrow> 'f"
  f_sub :: "'f \<Rightarrow> 'f \<Rightarrow> 'f"
  f_mul :: "'f \<Rightarrow> 'f \<Rightarrow> 'f"
  f_div :: "'f \<Rightarrow> 'f \<Rightarrow> 'f"
  f_abs :: "'f \<Rightarrow> 'f"
  f_lt :: "'f \<Rightarrow> 'f \<Rightarrow> bool"
  f_le :: "'f \<Rightarrow> 'f \<Rightarrow> bool"

text \<open>
  A concrete arithmetic: real numbers, every result passed through a rounding function
  \<open>rnd\<close>. With \<open>rnd\<close> the identity it is exact arithmetic.
\<close>

definition rounded_ops :: "(real \<Rightarrow> real) \<Rightarrow> real float_ops" where
  "rounded_ops rnd =
     \<lparr> f_of_int = (\<lambda>i. rnd (of_int i)),
       f_lit = (\<lambda>x. rnd x),
       f_add = (\<lambda>a b. rnd (a + b)),
       f_sub = (\<lambda>a b. rnd (a - b)),
       f_mul = (\<lambda>a b. rnd (a * b)),
       f_div = (\<lambda>a b. rnd (a / b)),
       f_abs = (\<lambda>a. \<bar>a\<bar>),
       f_lt = (\<lambda>a b. a < b),
       f_le = (\<lambda>a b. a \<le> b) \<rparr>"

definition exact_ops :: "real float_ops" where
  "exact_ops = rounded_ops (\<lambda>x. x)"

text \<open>\<open>clampf\<close> of pulse_bpm.cpp, and \<open>std::max\<close> on floats (\<open>(a < b) ? b : a\<close>).\<close>

definition clampf :: "'f float_ops \<Rightarrow> 'f \<Rightarrow> 'f \<Rightarrow> 'f \<Rightarrow> 'f" where
  "clampf F v lo hi = (if f_lt F v lo then lo else if f_lt F hi v then hi else v)"

definition fmax :: "'f float_ops \<Rightarrow> 'f \<Rightarrow> 'f \<Rightarrow> 'f" where
  "fmax F a b = (if f_lt F a b then b else a)"

section \<open>PulseBpm: signal conditioner and beat detector\<close>

definition BPM_MIN :: int where "BPM_MIN = 40"
definition BPM_MAX :: int where "BPM_MAX = 180"
definition IBI_MIN_MS :: int where "IBI_MIN_MS = 60000 sdiv BPM_MAX"
definition IBI_MAX_MS :: int where "IBI_MAX_MS = 60000 sdiv BPM_MIN"
definition IBI_BUF :: int where "IBI_BUF = 5"
definition LLONG_MAX :: int where "LLONG_MAX = 9223372036854775807"

datatype Result = NONE | PROVISIONAL | STABLE

text \<open>
  The members of class PulseBpm. \<open>int\<close> and \<open>int64_t\<close> members are integers; signed
  overflow is undefined in C++ and is not modelled. \<open>ibi_buf\<close> is the 5-slot array.
\<close>

record 'f PulseBpm =
  baseline :: 'f
  lp :: 'f
  env_inited :: bool
  env_min :: 'f
  env_max :: 'f
  last_beat_ms :: int
  have_prev :: bool
  prev_filt :: 'f
  prev_t_ms :: int
  diff_prev :: 'f
  ibi_buf :: "int list"
  ibi_count :: int
  p2p_ema :: 'f
  noise_ema :: 'f
  last_p2p :: 'f

definition PulseBpm_reset :: "'f float_ops \<Rightarrow> int \<Rightarrow> 'f PulseBpm" where
  "PulseBpm_reset F initial_raw =
     \<lparr> baseline = f_of_int F initial_raw,
       lp = f_lit F 0,
       env_inited = False,
       env_min = f_lit F 0,
       env_max = f_lit F 0,
       last_beat_ms = 0,
       have_prev = False,
       prev_filt = f_lit F 0,
       prev_t_ms = 0,
       diff_prev = f_lit F 0,
       ibi_buf = [0, 0, 0, 0, 0],
       ibi_count = 0,
       p2p_ema = f_lit F 0,
       noise_ema = f_lit F 0,
       last_p2p = f_lit F 0 \<rparr>"

definition update_envelope :: "'f float_ops \<Rightarrow> 'f PulseBpm \<Rightarrow> 'f \<Rightarrow> 'f PulseBpm" where
  "update_envelope F s x =
     (if \<not> env_inited s then s\<lparr>env_min := x, env_max := x, env_inited := True\<rparr>
      else
        let decay = f_lit F 0.01;
            s1 = (if f_lt F x (env_min s) then s\<lparr>env_min := x\<rparr>
                  else s\<lparr>env_min := f_add F (env_min s) (f_mul F decay (f_sub F x (env_min s)))\<rparr>)
        in (if f_lt F (env_max s1) x then s1\<lparr>env_max := x\<rparr>
            else s1\<lparr>env_max := f_add F (env_max s1) (f_mul F decay (f_sub F x (env_max s1)))\<rparr>))"

definition push_ibi :: "'f PulseBpm \<Rightarrow> int \<Rightarrow> 'f PulseBpm" where
  "push_ibi s ibi =
     s\<lparr>ibi_buf := (ibi_buf s)[nat (ibi_count s smod IBI_BUF) := ibi],
       ibi_count := ibi_count s + 1\<rparr>"

definition average_ibi :: "'f PulseBpm \<Rightarrow> int" where
  "average_ibi s =
     (let n = min (ibi_count s) IBI_BUF
      in if n \<le> 0 then 0 else sum_list (take (nat n) (ibi_buf s)) sdiv n)"

definition median_ibi :: "'f PulseBpm \<Rightarrow> int" where
  "median_ibi s =
     (let n = min (ibi_count s) IBI_BUF
      in if n \<le> 0 then 0 else sort (take (nat n) (ibi_buf s)) ! nat (n sdiv 2))"

text \<open>
  The cast \<open>(int)(beat_ms - last_beat_ms_)\<close> from \<open>int64_t\<close> to the 32-bit \<open>int\<close>:
  reduction modulo \<open>2^32\<close> into the signed range.
\<close>

definition narrow_int32 :: "int \<Rightarrow> int" where
  "narrow_int32 x = (x + 2147483648) mod 4294967296 - 2147483648"

text \<open>
  \<open>register_beat(beat_ms, out_bpm)\<close>: the result, the new state and the new contents of
  the reference parameter \<open>out_bpm\<close>.
\<close>

definition register_beat ::
  "'f float_ops \<Rightarrow> 'f PulseBpm \<Rightarrow> int \<Rightarrow> int \<Rightarrow> Result \<times> 'f PulseBpm \<times> int" where
  "register_beat F s beat_ms out_bpm =
     (if last_beat_ms s \<noteq> 0 then
        let ibi = narrow_int32 (beat_ms - last_beat_ms s) in
        if ibi < IBI_MIN_MS \<or> ibi > IBI_MAX_MS then
          (Result.NONE, s\<lparr>last_beat_ms := beat_ms\<rparr>, out_bpm)
        else if ibi_count s \<ge> 3 \<and> median_ibi s > 0 \<and>
                (let ratio = f_div F (f_of_int F ibi) (f_of_int F (median_ibi s))
                 in f_lt F ratio (f_lit F 0.85) \<or> f_lt F (f_lit F 1.20) ratio) then
          (Result.NONE, s\<lparr>last_beat_ms := beat_ms\<rparr>, out_bpm)
        else
          let s1 = push_ibi s ibi;
              avg = average_ibi s1
          in if avg > 0 then
               (if ibi_count s1 < 3 then PROVISIONAL else STABLE,
                s1\<lparr>last_beat_ms := beat_ms\<rparr>, 60000 sdiv avg)
             else (Result.NONE, s1\<lparr>last_beat_ms := beat_ms\<rparr>, out_bpm)
      else (Result.NONE, s\<lparr>last_beat_ms := beat_ms\<rparr>, out_bpm))"

text \<open>
  \<open>update\<close>, steps 1 to 5 (baseline removal, low-pass, envelope, noise estimate, smoothed
  amplitude): the members after these assignments. The local \<open>filt\<close> is the new \<open>lp\<close>
  and the local \<open>p2p\<close> the new \<open>last_p2p\<close>.
\<close>

definition condition_signal :: "'f float_ops \<Rightarrow> 'f PulseBpm \<Rightarrow> int \<Rightarrow> 'f PulseBpm" where
  "condition_signal F s raw =
     (let alpha_base = f_lit F 0.01;
          s1 = s\<lparr>baseline := f_add F (baseline s)
                   (f_mul F alpha_base (f_sub F (f_of_int F raw) (baseline s)))\<rparr>;
          ac = f_sub F (f_of_int F raw) (baseline s1);
          alpha_lp = f_lit F 0.18;
          s2 = s1\<lparr>lp := f_add F (lp s1) (f_mul F alpha_lp (f_sub F ac (lp s1)))\<rparr>;
          filt = lp s2;
          s3 = update_envelope F s2 filt;
          p2p = f_sub F (env_max s3) (env_min s3);
          s4 = s3\<lparr>last_p2p := p2p\<rparr>;
          s5 = (if have_prev s4 then
                  let diff = f_sub F filt (prev_filt s4);
                      alpha_noise = f_lit F 0.06
                  in s4\<lparr>noise_ema := f_add F (noise_ema s4)
                         (f_mul F alpha_noise (f_sub F (f_abs F diff) (noise_ema s4)))\<rparr>
                else s4);
          alpha_p2p = f_lit F 0.04
      in if f_le F (p2p_ema s5) (f_lit F 0) then s5\<lparr>p2p_ema := p2p\<rparr>
         else s5\<lparr>p2p_ema := f_add F (p2p_ema s5)
                  (f_mul F alpha_p2p (f_sub F p2p (p2p_ema s5)))\<rparr>)"

text \<open>Step 6: the adaptive minimum amplitude, from the noise estimate.\<close>

definition p2p_min_adapt :: "'f float_ops \<Rightarrow> 'f PulseBpm \<Rightarrow> 'f" where
  "p2p_min_adapt F s =
     clampf F (fmax F (f_lit F 18) (f_mul F (f_lit F 8) (noise_ema s))) (f_lit F 18) (f_lit F 80)"

text \<open>Step 7: the adaptive threshold \<open>thr\<close>.\<close>

definition thr :: "'f float_ops \<Rightarrow> 'f PulseBpm \<Rightarrow> 'f" where
  "thr F s =
     (let THR_MIN = f_lit F 22;
          thr_from_amp = f_mul F (f_lit F 0.26) (p2p_ema s);
          thr_from_noise = f_mul F (f_lit F 6) (noise_ema s)
      in fmax F THR_MIN (fmax F thr_from_amp thr_from_noise))"

text \<open>Step 8: the value assigned to \<open>out_quality\<close>.\<close>

definition quality_score :: "'f float_ops \<Rightarrow> 'f PulseBpm \<Rightarrow> 'f" where
  "quality_score F s =
     (let q_amp = clampf F (f_div F (p2p_ema s) (f_lit F 140)) (f_lit F 0) (f_lit F 1);
          q_noise = clampf F (f_sub F (f_lit F 1) (f_div F (noise_ema s) (f_lit F 25)))
                      (f_lit F 0) (f_lit F 1);
          q_stb = clampf F (f_div F (f_of_int F (min (ibi_count s) 5)) (f_lit F 5))
                    (f_lit F 0) (f_lit F 1)
      in clampf F
           (f_add F (f_add F (f_mul F (f_lit F 0.55) q_amp) (f_mul F (f_lit F 0.30) q_noise))
              (f_mul F (f_lit F 0.15) q_stb))
           (f_lit F 0) (f_lit F 1))"

text \<open>
  Step 9, the flag \<open>beat\<close>: the state \<open>s\<close> is the one after steps 1 to 5, so \<open>lp s\<close> is
  \<open>filt\<close>, and \<open>prev_filt s\<close>, \<open>prev_t_ms s\<close>, \<open>diff_prev s\<close> are still those of the
  previous sample.
\<close>

definition beat :: "'f float_ops \<Rightarrow> 'f PulseBpm \<Rightarrow> bool" where
  "beat F s =
     (let diff = f_sub F (lp s) (prev_filt s);
          slope_was_up = f_lt F (f_lit F 0) (diff_prev s);
          slope_now_down = f_le F diff (f_lit F 0);
          since_last = (if last_beat_ms s = 0 then LLONG_MAX
                        else prev_t_ms s - last_beat_ms s);
          refractory_ok = (since_last \<ge> IBI_MIN_MS);
          prominence = f_sub F (prev_filt s) (env_min s);
          prom_req = f_mul F (f_lit F 0.50) (p2p_ema s);
          prominent_enough = f_lt F prom_req prominence
      in refractory_ok \<and> slope_was_up \<and> slope_now_down
         \<and> (f_lt F (thr F s) (prev_filt s) \<and> prominent_enough))"

text \<open>
  \<open>update(raw, t_ms, out_bpm, out_quality)\<close>: the result, the new state and the new
  contents of the two reference parameters.
\<close>

definition PulseBpm_update ::
  "'f float_ops \<Rightarrow> 'f PulseBpm \<Rightarrow> int \<Rightarrow> int \<Rightarrow> int \<Rightarrow> 'f
     \<Rightarrow> Result \<times> 'f PulseBpm \<times> int \<times> 'f" where
  "PulseBpm_update F s raw t_ms out_bpm out_quality =
     (let s6 = condition_signal F s raw;
          filt = lp s6;
          out_quality1 = quality_score F s6
      in if \<not> env_inited s6 \<or> f_lt F (p2p_ema s6) (p2p_min_adapt F s6) then
           (Result.NONE, s6\<lparr>have_prev := False\<rparr>, out_bpm, out_quality1)
         else if \<not> have_prev s6 then
           (Result.NONE, s6\<lparr>prev_filt := filt, prev_t_ms := t_ms, have_prev := True,
                      diff_prev := f_lit F 0\<rparr>, out_bpm, out_quality1)
         else
           let diff = f_sub F filt (prev_filt s6);
               s7 = s6\<lparr>diff_prev := diff, prev_filt := filt, prev_t_ms := t_ms\<rparr>
           in if \<not> beat F s6 then (Result.NONE, s7, out_bpm, out_quality1)
              else (case register_beat F s7 (prev_t_ms s7) out_bpm of
                      (res, s8, out_bpm1) \<Rightarrow> (res, s8, out_bpm1, out_quality1)))"

text \<open>
  The path condition under which \<open>update\<close> reaches its last line and calls
  \<open>register_beat\<close>: both validity gates passed and the flag \<open>beat\<close> is set.
\<close>

definition candidate_beat :: "'f float_ops \<Rightarrow> 'f PulseBpm \<Rightarrow> int \<Rightarrow> bool" where
  "candidate_beat F s raw =
     (let s6 = condition_signal F s raw
      in \<not> (\<not> env_inited s6 \<or> f_lt F (p2p_ema s6) (p2p_min_adapt F s6))
         \<and> have_prev s6 \<and> beat F s6)"

text \<open>
  The RUNNING loop of \<open>sampler_task\<close> without the scheduler: each sample \<open>(raw, t)\<close> is
  fed to \<open>update\<close> with fresh outputs \<open>bpm = 0\<close>, \<open>q = 0.0f\<close>. The second component
  records, oldest first, the interval \<open>(int)(t - last_beat_ms_)\<close> of every call that
  returned \<open>PROVISIONAL\<close> or \<open>STABLE\<close>: the accepted inter-beat intervals since the
  reset.
\<close>

fun PulseBpm_run ::
  "'f float_ops \<Rightarrow> 'f PulseBpm \<times> int list \<Rightarrow> (int \<times> int) list \<Rightarrow> 'f PulseBpm \<times> int list" where
  "PulseBpm_run F (s, acc) [] = (s, acc)"
| "PulseBpm_run F (s, acc) ((raw, t) # xs) =
     (case PulseBpm_update F s raw t 0 (f_lit F 0) of
        (res, s', ob, oq) \<Rightarrow>
          PulseBpm_run F
            (s', if res = Result.NONE then acc else acc @ [narrow_int32 (t - last_beat_ms s)]) xs)"

text \<open>
  The ring invariant: with \<open>acc\<close> the accepted intervals so far, the ring holds the
  interval number \<open>i\<close> in slot \<open>i mod 5\<close> for the last five of them, the count is their
  number, and all of them lie in [333, 1500].
\<close>

definition ring_inv :: "'f PulseBpm \<Rightarrow> int list \<Rightarrow> bool" where
  "ring_inv s acc \<longleftrightarrow>
     length (ibi_buf s) = 5 \<and> ibi_count s = int (length acc)
     \<and> (\<forall>x\<in>set acc. 333 \<le> x \<and> x \<le> 1500)
     \<and> (\<forall>i<length acc. length acc \<le> i + 5 \<longrightarrow> ibi_buf s ! (i mod 5) = acc ! i)
     \<and> mset (take (min (length acc) 5) (ibi_buf s)) = mset (take 5 (rev acc))"

section \<open>HrAnomalyDetector: the alarm state machine\<close>

datatype AlarmType = NONE | NO_SIGNAL | BRADYCARDIA | TACHYCARDIA | RAPID_CHANGE

text \<open>
  The structs of heart_monitor_types.h. \<open>BpmReading\<close> keeps the field names of the
  source; the fields of \<open>AlarmEvent\<close> (\<open>type\<close>, \<open>bpm\<close>, \<open>quality\<close>, \<open>t_ms\<close>) carry the
  prefix \<open>ev_\<close> and those of \<open>Hist\<close> (\<open>bpm\<close>, \<open>t_ms\<close>) the prefix \<open>hist_\<close>. As in
  PulseBpm, \<open>int\<close>, \<open>int64_t\<close> and \<open>uint8_t\<close> values are integers; the one 32-bit
  computation on values that readings supply, the bpm difference of
  \<open>detect_rapid_change\<close>, is reduced to 32 bits, and the differences of 64-bit
  timestamps are not.
\<close>

record 'f BpmReading =
  bpm :: int
  quality :: 'f
  stable :: bool
  t_ms :: int

record 'f AlarmEvent =
  ev_type :: AlarmType
  ev_bpm :: int
  ev_quality :: 'f
  ev_t_ms :: int

record 'f Config =
  brady_bpm :: int
  tachy_bpm :: int
  sustain_ms :: int
  min_quality_for_bpm :: 'f
  no_signal_ms :: int
  rapid_change_delta_bpm :: int
  rapid_change_window_ms :: int
  clear_ms :: int

definition default_Config :: "'f float_ops \<Rightarrow> 'f Config" where
  "default_Config F =
     \<lparr> brady_bpm = 45,
       tachy_bpm = 130,
       sustain_ms = 5000,
       min_quality_for_bpm = f_lit F 0.25,
       no_signal_ms = 3000,
       rapid_change_delta_bpm = 35,
       rapid_change_window_ms = 5000,
       clear_ms = 3000 \<rparr>"

record Hist =
  hist_bpm :: int
  hist_t_ms :: int

definition HIST_N :: int where "HIST_N = 8"

record 'f HrAnomalyDetector =
  cfg :: "'f Config"
  active_alarm :: AlarmType
  last_t_ms :: int
  no_signal_since_ms :: int
  abnormal_since_ms :: int
  abnormal_kind :: AlarmType
  clear_since_ms :: int
  hist :: "Hist list"
  hist_wr :: int
  hist_count :: int

text \<open>The constructor \<open>HrAnomalyDetector(cfg)\<close> with the default member initialisers.\<close>

definition HrAnomalyDetector_init :: "'f Config \<Rightarrow> 'f HrAnomalyDetector" where
  "HrAnomalyDetector_init c =
     \<lparr> cfg = c,
       active_alarm = AlarmType.NONE,
       last_t_ms = 0,
       no_signal_since_ms = 0,
       abnormal_since_ms = 0,
       abnormal_kind = AlarmType.NONE,
       clear_since_ms = 0,
       hist = replicate 8 \<lparr>hist_bpm = 0, hist_t_ms = 0\<rparr>,
       hist_wr = 0,
       hist_count = 0 \<rparr>"

definition push_hist :: "'f HrAnomalyDetector \<Rightarrow> 'f BpmReading \<Rightarrow> 'f HrAnomalyDetector" where
  "push_hist s r =
     s\<lparr>hist := (hist s)[nat (hist_wr s) := \<lparr>hist_bpm = bpm r, hist_t_ms = t_ms r\<rparr>],
       hist_wr := (hist_wr s + 1) smod HIST_N,
       hist_count := (if hist_count s < HIST_N then hist_count s + 1 else hist_count s)\<rparr>"

text \<open>
  The \<open>for\<close> loop of \<open>detect_rapid_change\<close>, from index \<open>i\<close> on: \<open>continue\<close> is the
  recursive call, \<open>break\<close> and falling out of the loop give \<open>False\<close>. The local
  \<open>dbpm = std::abs(newest.bpm - old.bpm)\<close> is a 32-bit \<open>int\<close> computed from 32-bit
  operands: both the difference and its absolute value are reduced modulo \<open>2^32\<close> into
  the signed range, as the two's-complement target does (\<open>INT_MAX - (-1)\<close> and the
  absolute value of \<open>INT_MIN\<close> are both \<open>INT_MIN\<close>).
\<close>

function detect_rapid_change_loop :: "'f HrAnomalyDetector \<Rightarrow> Hist \<Rightarrow> int \<Rightarrow> bool" where
  "detect_rapid_change_loop s newest i =
     (if i < hist_count s then
        (if hist_t_ms newest - hist_t_ms (hist s ! nat ((hist_wr s + HIST_N - 1 - i) smod HIST_N)) \<le> 0
         then detect_rapid_change_loop s newest (i + 1)
         else if hist_t_ms newest - hist_t_ms (hist s ! nat ((hist_wr s + HIST_N - 1 - i) smod HIST_N))
                   > rapid_change_window_ms (cfg s)
         then False
         else if narrow_int32
                   \<bar>narrow_int32
                      (hist_bpm newest - hist_bpm (hist s ! nat ((hist_wr s + HIST_N - 1 - i) smod HIST_N)))\<bar>
                   \<ge> rapid_change_delta_bpm (cfg s)
         then True
         else detect_rapid_change_loop s newest (i + 1))
      else False)"
  by pat_completeness auto
termination
  by (relation "measure (\<lambda>(s, newest, i). nat (hist_count s - i))") auto

definition detect_rapid_change :: "'f HrAnomalyDetector \<Rightarrow> bool" where
  "detect_rapid_change s =
     (if hist_count s < 2 then False
      else
        let newest_idx = (hist_wr s + HIST_N - 1) smod HIST_N;
            newest = hist s ! nat newest_idx
        in detect_rapid_change_loop s newest 1)"

text \<open>\<open>update\<close>, lines 35 to 42: the timestamp and the no-signal tracking.\<close>

definition track_no_signal ::
  "'f float_ops \<Rightarrow> 'f HrAnomalyDetector \<Rightarrow> 'f BpmReading \<Rightarrow> 'f HrAnomalyDetector" where
  "track_no_signal F s r =
     (let s1 = s\<lparr>last_t_ms := t_ms r\<rparr>
      in if f_lt F (quality r) (min_quality_for_bpm (cfg s1)) \<or> bpm r \<le> 0 then
           (if no_signal_since_ms s1 = 0 then s1\<lparr>no_signal_since_ms := t_ms r\<rparr> else s1)
         else s1\<lparr>no_signal_since_ms := 0\<rparr>)"

text \<open>
  \<open>update\<close>, lines 57 to 76, step 2 for a usable reading: the sustained bradycardia or
  tachycardia candidate and the onset tracking.
\<close>

definition sustained ::
  "'f HrAnomalyDetector \<Rightarrow> 'f BpmReading \<Rightarrow> AlarmType \<times> 'f HrAnomalyDetector" where
  "sustained s r =
     (if bpm r > 0 \<and> bpm r < brady_bpm (cfg s) then
        let s1 = (if abnormal_since_ms s = 0 \<or> abnormal_kind s \<noteq> BRADYCARDIA
                  then s\<lparr>abnormal_since_ms := t_ms r, abnormal_kind := BRADYCARDIA\<rparr> else s)
        in (if t_ms r - abnormal_since_ms s1 \<ge> sustain_ms (cfg s1) then BRADYCARDIA
            else AlarmType.NONE, s1)
      else if bpm r > tachy_bpm (cfg s) then
        let s1 = (if abnormal_since_ms s = 0 \<or> abnormal_kind s \<noteq> TACHYCARDIA
                  then s\<lparr>abnormal_since_ms := t_ms r, abnormal_kind := TACHYCARDIA\<rparr> else s)
        in (if t_ms r - abnormal_since_ms s1 \<ge> sustain_ms (cfg s1) then TACHYCARDIA
            else AlarmType.NONE, s1)
      else (AlarmType.NONE, s\<lparr>abnormal_since_ms := 0, abnormal_kind := AlarmType.NONE\<rparr>))"

text \<open>
  \<open>update\<close>, lines 35 to 88: the local \<open>candidate\<close> before the hysteresis, and the state
  at that point.
\<close>

definition classify ::
  "'f float_ops \<Rightarrow> 'f HrAnomalyDetector \<Rightarrow> 'f BpmReading \<Rightarrow> AlarmType \<times> 'f HrAnomalyDetector" where
  "classify F s r =
     (let s1 = push_hist (track_no_signal F s r) r
      in if no_signal_since_ms s1 \<noteq> 0 \<and> t_ms r - no_signal_since_ms s1 \<ge> no_signal_ms (cfg s1)
         then (NO_SIGNAL, s1)
         else
           let usable = (f_le F (min_quality_for_bpm (cfg s1)) (quality r) \<and> stable r)
           in if usable then
                (case sustained s1 r of
                   (candidate, s2) \<Rightarrow>
                     if candidate = AlarmType.NONE then
                       (if detect_rapid_change s2 then RAPID_CHANGE else AlarmType.NONE, s2)
                     else (candidate, s2))
              else (AlarmType.NONE, s1\<lparr>abnormal_since_ms := 0, abnormal_kind := AlarmType.NONE\<rparr>))"

text \<open>\<open>update\<close>, lines 90 to 100: the clear hysteresis applied to \<open>candidate\<close>.\<close>

definition clear_hysteresis ::
  "'f HrAnomalyDetector \<Rightarrow> 'f BpmReading \<Rightarrow> AlarmType \<Rightarrow> AlarmType \<times> 'f HrAnomalyDetector" where
  "clear_hysteresis s r candidate =
     (if active_alarm s \<noteq> AlarmType.NONE \<and> candidate = AlarmType.NONE then
        let s1 = (if clear_since_ms s = 0 then s\<lparr>clear_since_ms := t_ms r\<rparr> else s)
        in if t_ms r - clear_since_ms s1 < clear_ms (cfg s1) then (active_alarm s1, s1)
           else (candidate, s1\<lparr>clear_since_ms := 0\<rparr>)
      else (candidate, s\<lparr>clear_since_ms := 0\<rparr>))"

text \<open>
  \<open>bool update(const BpmReading& r, AlarmEvent& out_event)\<close>: the returned flag, the new
  state and the new contents of \<open>out_event\<close>.
\<close>

definition HrAnomalyDetector_update ::
  "'f float_ops \<Rightarrow> 'f HrAnomalyDetector \<Rightarrow> 'f BpmReading \<Rightarrow> 'f AlarmEvent
     \<Rightarrow> bool \<times> 'f HrAnomalyDetector \<times> 'f AlarmEvent" where
  "HrAnomalyDetector_update F s r out_event =
     (case classify F s r of
        (candidate0, s1) \<Rightarrow>
          (case clear_hysteresis s1 r candidate0 of
             (candidate, s2) \<Rightarrow>
               if candidate \<noteq> active_alarm s2 then
                 (True, s2\<lparr>active_alarm := candidate\<rparr>,
                  \<lparr>ev_type = candidate, ev_bpm = bpm r, ev_quality = quality r, ev_t_ms = t_ms r\<rparr>)
               else (False, s2, out_event)))"

text \<open>
  The loop body of \<open>detector_task\<close> without the scheduler: every reading is passed to
  \<open>update\<close> with a fresh \<open>AlarmEvent out{}\<close>, and the event is published when \<open>update\<close>
  returns true. \<open>alarm_events\<close> is the sequence of published events,
  \<open>HrAnomalyDetector_run\<close> the detector after the readings.
\<close>

definition fresh_event :: "'f float_ops \<Rightarrow> 'f AlarmEvent" where
  "fresh_event F = \<lparr>ev_type = AlarmType.NONE, ev_bpm = 0, ev_quality = f_lit F 0, ev_t_ms = 0\<rparr>"

fun alarm_events ::
  "'f float_ops \<Rightarrow> 'f HrAnomalyDetector \<Rightarrow> 'f BpmReading list \<Rightarrow> 'f AlarmEvent list" where
  "alarm_events F s [] = []"
| "alarm_events F s (r # rs) =
     (case HrAnomalyDetector_update F s r (fresh_event F) of
        (changed, s', out) \<Rightarrow> (if changed then [out] else []) @ alarm_events F s' rs)"

fun HrAnomalyDetector_run ::
  "'f float_ops \<Rightarrow> 'f HrAnomalyDetector \<Rightarrow> 'f BpmReading list \<Rightarrow> 'f HrAnomalyDetector" where
  "HrAnomalyDetector_run F s [] = s"
| "HrAnomalyDetector_run F s (r # rs) =
     HrAnomalyDetector_run F (fst (snd (HrAnomalyDetector_update F s r (fresh_event F)))) rs"

text \<open>
  The effective candidate of a tick: the local \<open>candidate\<close> after the hysteresis, as it
  is compared with \<open>active_alarm_\<close> in line 103.
\<close>

definition effective_candidate :: "'f float_ops \<Rightarrow> 'f HrAnomalyDetector \<Rightarrow> 'f BpmReading \<Rightarrow> AlarmType" where
  "effective_candidate F s r =
     (case classify F s r of (candidate0, s1) \<Rightarrow> fst (clear_hysteresis s1 r candidate0))"

text \<open>
  Every reading of the list produces the candidate \<open>NONE\<close> before the hysteresis.
\<close>

fun all_quiet :: "'f float_ops \<Rightarrow> 'f HrAnomalyDetector \<Rightarrow> 'f BpmReading list \<Rightarrow> bool" where
  "all_quiet F s [] = True"
| "all_quiet F s (r # rs) =
     (fst (classify F s r) = AlarmType.NONE
      \<and> all_quiet F (fst (snd (HrAnomalyDetector_update F s r (fresh_event F)))) rs)"

text \<open>
  The history ring read the way \<open>detect_rapid_change\<close> reads it: entry \<open>i\<close> is slot
  \<open>(hist_wr + HIST_N - 1 - i) % HIST_N\<close>, the newest first. \<open>hist_ok\<close> is the range
  invariant of the ring indices, \<open>hist_of\<close> the entry \<open>push_hist\<close> stores for a reading.
\<close>

definition hist_ok :: "'f HrAnomalyDetector \<Rightarrow> bool" where
  "hist_ok s \<longleftrightarrow> length (hist s) = 8 \<and> 0 \<le> hist_wr s \<and> hist_wr s < 8
                 \<and> 0 \<le> hist_count s \<and> hist_count s \<le> 8"

definition history :: "'f HrAnomalyDetector \<Rightarrow> Hist list" where
  "history s = map (\<lambda>i. hist s ! nat ((hist_wr s + HIST_N - 1 - int i) smod HIST_N))
                   [0..<nat (hist_count s)]"

definition hist_of :: "'f BpmReading \<Rightarrow> Hist" where
  "hist_of r = \<lparr>hist_bpm = bpm r, hist_t_ms = t_ms r\<rparr>"

section \<open>Concrete inputs\<close>

text \<open>
  Five samples after \<open>reset(2000)\<close> in exact arithmetic, and the detector states they
  lead to: the envelope is initialised, the amplitude seeded, a first peak arms the timing
  at 400 ms, and after \<open>run_s5\<close> a second peak is pending.
\<close>

definition run_samples :: "(int \<times> int) list" where
  "run_samples = [(2000, 100), (1400, 200), (3800, 300), (2000, 400), (3800, 800)]"

definition run_s1 :: "real PulseBpm" where
  "run_s1 =
     \<lparr> baseline = 2000, lp = 0, env_inited = True,
       env_min = 0, env_max = 0,
       last_beat_ms = 0, have_prev = False, prev_filt = 0,
       prev_t_ms = 0, diff_prev = 0,
       ibi_buf = [0, 0, 0, 0, 0], ibi_count = 0,
       p2p_ema = 0, noise_ema = 0,
       last_p2p = 0 \<rparr>"

definition run_s2 :: "real PulseBpm" where
  "run_s2 =
     \<lparr> baseline = 1994, lp = - (2673 / 25), env_inited = True,
       env_min = - (2673 / 25), env_max = - (2673 / 2500),
       last_beat_ms = 0, have_prev = True, prev_filt = - (2673 / 25),
       prev_t_ms = 200, diff_prev = 0,
       ibi_buf = [0, 0, 0, 0, 0], ibi_count = 0,
       p2p_ema = 264627 / 2500, noise_ema = 0,
       last_p2p = 264627 / 2500 \<rparr>"

definition run_s3 :: "real PulseBpm" where
  "run_s3 =
     \<lparr> baseline = 100603 / 50, lp = 585387 / 2500, env_inited = True,
       env_min = - (25877313 / 250000), env_max = 585387 / 2500,
       last_beat_ms = 0, have_prev = True, prev_filt = 585387 / 2500,
       prev_t_ms = 300, diff_prev = 852687 / 2500,
       ibi_buf = [0, 0, 0, 0, 0], ibi_count = 0,
       p2p_ema = 719520813 / 6250000, noise_ema = 2558061 / 125000,
       last_p2p = 84416013 / 250000 \<rparr>"

definition run_s4 :: "real PulseBpm" where
  "run_s4 =
     \<lparr> baseline = 10059697 / 5000, lp = 47464461 / 250000, env_inited = True,
       env_min = - (1257194763 / 12500000), env_max = 5842795761 / 25000000,
       last_beat_ms = 400, have_prev = True, prev_filt = 47464461 / 250000,
       prev_t_ms = 400, diff_prev = - (11074239 / 250000),
       ibi_buf = [0, 0, 0, 0, 0], ibi_count = 0,
       p2p_ema = 15486236667 / 125000000, noise_ema = 273680451 / 12500000,
       last_p2p = 8357185287 / 25000000 \<rparr>"

definition run_s5 :: "real PulseBpm" where
  "run_s5 =
     \<lparr> baseline = 1014910003 / 500000, lp = 474315831 / 1000000, env_inited = True,
       env_min = - (237066667299 / 2500000000), env_max = 474315831 / 1000000,
       last_beat_ms = 400, have_prev = True, prev_filt = 474315831 / 1000000,
       prev_t_ms = 800, diff_prev = 284457987 / 1000000,
       ibi_buf = [0, 0, 0, 0, 0], ibi_count = 0,
       p2p_ema = 8856249844959 / 62500000000, noise_ema = 47060311419 / 1250000000,
       last_p2p = 1422856244799 / 2500000000 \<rparr>"

text \<open>
  A rounding to multiples of \<open>1/1024\<close>, and a state with an initialised envelope.
\<close>

definition fixed_rnd :: "real \<Rightarrow> real" where
  "fixed_rnd y = of_int (round (y * 1024)) / 1024"

definition env_state :: "real PulseBpm" where
  "env_state = \<lparr> baseline = 0, lp = 3, env_inited = True, env_min = 1, env_max = 4,
       last_beat_ms = 0, have_prev = False, prev_filt = 0, prev_t_ms = 0, diff_prev = 0,
       ibi_buf = [0, 0, 0, 0, 0], ibi_count = 0, p2p_ema = 0, noise_ema = 0, last_p2p = 0 \<rparr>"

text \<open>
  Readings in exact arithmetic and the detector with the default configuration: a
  reading of quality 0, a stable reading of 75 bpm and quality 1, a stable reading of
  150 bpm with quality 0.1, and a stable reading of quality 1 with a given bpm.
\<close>

definition low_reading :: "int \<Rightarrow> real BpmReading" where
  "low_reading t = \<lparr>bpm = 70, quality = 0, stable = False, t_ms = t\<rparr>"

definition normal_reading :: "int \<Rightarrow> real BpmReading" where
  "normal_reading t = \<lparr>bpm = 75, quality = 1, stable = True, t_ms = t\<rparr>"

definition detector0 :: "real HrAnomalyDetector" where
  "detector0 = HrAnomalyDetector_init (default_Config exact_ops)"

definition weak_tachy_reading :: "int \<Rightarrow> real BpmReading" where
  "weak_tachy_reading t = \<lparr>bpm = 150, quality = 0.1, stable = True, t_ms = t\<rparr>"

definition usable_reading :: "int \<Rightarrow> int \<Rightarrow> real BpmReading" where
  "usable_reading b t = \<lparr>bpm = b, quality = 1, stable = True, t_ms = t\<rparr>"

section \<open>Properties of PulseBpm\<close>

lemma update_envelope_frame [simp]:
  "have_prev (update_envelope F s x) = have_prev s"
  "prev_filt (update_envelope F s x) = prev_filt s"
  "prev_t_ms (update_envelope F s x) = prev_t_ms s"
  "diff_prev (update_envelope F s x) = diff_prev s"
  "last_beat_ms (update_envelope F s x) = last_beat_ms s"
  "ibi_buf (update_envelope F s x) = ibi_buf s"
  "ibi_count (update_envelope F s x) = ibi_count s"
  "lp (update_envelope F s x) = lp s"
  "baseline (update_envelope F s x) = baseline s"
  "p2p_ema (update_envelope F s x) = p2p_ema s"
  "noise_ema (update_envelope F s x) = noise_ema s"
  "env_inited (update_envelope F s x) = True"
  by (simp_all add: update_envelope_def Let_def)

lemma condition_signal_frame [simp]:
  "have_prev (condition_signal F s raw) = have_prev s"
  "prev_filt (condition_signal F s raw) = prev_filt s"
  "prev_t_ms (condition_signal F s raw) = prev_t_ms s"
  "diff_prev (condition_signal F s raw) = diff_prev s"
  "last_beat_ms (condition_signal F s raw) = last_beat_ms s"
  "ibi_buf (condition_signal F s raw) = ibi_buf s"
  "ibi_count (condition_signal F s raw) = ibi_count s"
  "env_inited (condition_signal F s raw) = True"
  by (simp_all add: condition_signal_def Let_def)

lemma IBI_consts [simp]: "IBI_MIN_MS = 333" "IBI_MAX_MS = 1500" "IBI_BUF = 5"
  by (simp_all add: IBI_MIN_MS_def IBI_MAX_MS_def BPM_MIN_def BPM_MAX_def IBI_BUF_def signed_divide_int_def)

lemma register_beat_frame:
  assumes "register_beat F s b ob = (res, s', ob')"
  shows "last_beat_ms s' = b" "lp s' = lp s" "p2p_ema s' = p2p_ema s" "noise_ema s' = noise_ema s"
    "env_min s' = env_min s" "env_max s' = env_max s" "env_inited s' = env_inited s"
    "prev_filt s' = prev_filt s" "prev_t_ms s' = prev_t_ms s" "diff_prev s' = diff_prev s"
    "have_prev s' = have_prev s" "baseline s' = baseline s" "last_p2p s' = last_p2p s"
  using assms by (auto simp: register_beat_def push_ibi_def Let_def split: if_splits)

lemma register_beat_NONE_out_bpm:
  "register_beat F s b ob = (Result.NONE, s', ob') \<Longrightarrow> ob' = ob"
  by (auto simp: register_beat_def Let_def split: if_splits)

lemma update_no_candidate:
  assumes "\<not> candidate_beat F s raw" "PulseBpm_update F s raw t ob oq = (res, s', ob', oq')"
  shows "res = Result.NONE" "ob' = ob" "last_beat_ms s' = last_beat_ms s"
        "ibi_buf s' = ibi_buf s" "ibi_count s' = ibi_count s"
  using assms by (auto simp: candidate_beat_def PulseBpm_update_def Let_def split: if_splits)

lemma update_candidate:
  assumes "candidate_beat F s raw"
  shows "PulseBpm_update F s raw t ob oq =
     (let s6 = condition_signal F s raw;
          s7 = s6\<lparr>diff_prev := f_sub F (lp s6) (prev_filt s6), prev_filt := lp s6, prev_t_ms := t\<rparr>
      in case register_beat F s7 t ob of (res, s8, ob1) \<Rightarrow> (res, s8, ob1, quality_score F s6))"
  using assms by (simp add: candidate_beat_def PulseBpm_update_def Let_def)

lemma update_post_fields:
  assumes "PulseBpm_update F s raw t ob oq = (res, s', ob', oq')"
  shows "lp s' = lp (condition_signal F s raw)"
        "p2p_ema s' = p2p_ema (condition_signal F s raw)"
        "noise_ema s' = noise_ema (condition_signal F s raw)"
        "env_min s' = env_min (condition_signal F s raw)"
        "env_max s' = env_max (condition_signal F s raw)"
        "oq' = quality_score F (condition_signal F s raw)"
  using assms
  by (auto simp: PulseBpm_update_def Let_def  split: if_splits prod.splits dest: register_beat_frame)

lemma update_NONE_out_bpm:
  assumes "PulseBpm_update F s raw t ob oq = (Result.NONE, s', ob', oq')"
  shows "ob' = ob"
  using assms
  by (auto simp: PulseBpm_update_def Let_def  split: if_splits prod.splits dest: register_beat_NONE_out_bpm)

text \<open>
  C10. On every path of \<open>update\<close>, early return or not, the reference parameter
  \<open>out_quality\<close> receives the clamped weighted score of step 8, whatever was passed in:
  with \<open>clamp01\<close> the clamp to [0, 1] of \<open>clampf\<close>, it is
  \<open>clamp01 (0.55 * q_amp + 0.30 * q_noise + 0.15 * q_stb)\<close> where
  \<open>q_amp = clamp01 (p2p_ema / 140)\<close>, \<open>q_noise = clamp01 (1 - noise_ema / 25)\<close> and
  \<open>q_stb = clamp01 (min (ibi_count, 5) / 5)\<close>, all in float arithmetic; \<open>p2p_ema\<close> and
  \<open>noise_ema\<close> are the members after the call and \<open>ibi_count\<close> is the count before
  it. \<open>out_bpm\<close> is written only when a beat is accepted: whenever the result is
  \<open>Result.NONE\<close> it keeps the value the caller passed.
\<close>

theorem C10_out_params:
  assumes "PulseBpm_update F s raw t ob oq = (res, s', ob', oq')"
  shows "(let clamp01 = (\<lambda>v. if f_lt F v (f_lit F 0) then f_lit F 0
                             else if f_lt F (f_lit F 1) v then f_lit F 1 else v);
              q_amp = clamp01 (f_div F (p2p_ema s') (f_lit F 140));
              q_noise = clamp01 (f_sub F (f_lit F 1) (f_div F (noise_ema s') (f_lit F 25)));
              q_stb = clamp01 (f_div F (f_of_int F (min (ibi_count s) 5)) (f_lit F 5))
          in oq' = clamp01 (f_add F (f_add F (f_mul F (f_lit F 0.55) q_amp)
                                             (f_mul F (f_lit F 0.30) q_noise))
                                    (f_mul F (f_lit F 0.15) q_stb)))
         \<and> (res = Result.NONE \<longrightarrow> ob' = ob)"
proof -
  have q: "oq' = quality_score F (condition_signal F s raw)"
    and p: "p2p_ema s' = p2p_ema (condition_signal F s raw)"
    and n: "noise_ema s' = noise_ema (condition_signal F s raw)"
    using update_post_fields[OF assms] by simp_all
  have b: "res = Result.NONE \<longrightarrow> ob' = ob"
    using assms by (auto dest: update_NONE_out_bpm)
  show ?thesis
    unfolding q p n using b by (simp add: quality_score_def clampf_def Let_def)
qed

lemma LLONG_MAX_ge: "333 \<le> LLONG_MAX" by (simp add: LLONG_MAX_def)

lemma beat_gates:
  "beat F s6 \<longleftrightarrow>
     (f_lt F (f_lit F 0) (diff_prev s6)
      \<and> f_le F (f_sub F (lp s6) (prev_filt s6)) (f_lit F 0)
      \<and> (last_beat_ms s6 = 0 \<or> 333 \<le> prev_t_ms s6 - last_beat_ms s6)
      \<and> f_lt F (fmax F (f_lit F 22)
                  (fmax F (f_mul F (f_lit F 0.26) (p2p_ema s6)) (f_mul F (f_lit F 6) (noise_ema s6))))
               (prev_filt s6)
      \<and> f_lt F (f_mul F (f_lit F 0.50) (p2p_ema s6)) (f_sub F (prev_filt s6) (env_min s6)))"
  using LLONG_MAX_ge by (auto simp: beat_def thr_def Let_def)

text \<open>
  C5. \<open>update\<close> registers a beat only when all gates hold at once: the slope was
  positive at the previous sample and is non-positive now, the previous sample lies at
  least 333 ms after the last registered beat (or none is on record, \<open>last_beat_ms = 0\<close>),
  the previous filtered value exceeds \<open>max(22, 0.26 * p2p_ema, 6 * noise_ema)\<close>, and its
  prominence over the envelope minimum exceeds \<open>0.50 * p2p_ema\<close>. The amplitude, noise and
  envelope values are those after this call's conditioning, which are the members of the
  new state. If any gate fails the call returns \<open>Result.NONE\<close> and leaves \<open>out_bpm\<close>, the
  last-beat timestamp and the interval ring untouched.
\<close>

theorem C5_beat_needs_all_gates:
  assumes "PulseBpm_update F s raw t ob oq = (res, s', ob', oq')"
  shows "(f_lt F (f_lit F 0) (diff_prev s)
          \<and> f_le F (f_sub F (lp s') (prev_filt s)) (f_lit F 0)
          \<and> (last_beat_ms s = 0 \<or> 333 \<le> prev_t_ms s - last_beat_ms s)
          \<and> f_lt F (fmax F (f_lit F 22)
                  (fmax F (f_mul F (f_lit F 0.26) (p2p_ema s')) (f_mul F (f_lit F 6) (noise_ema s'))))
               (prev_filt s)
          \<and> f_lt F (f_mul F (f_lit F 0.50) (p2p_ema s')) (f_sub F (prev_filt s) (env_min s')))
         \<or> (res = Result.NONE \<and> ob' = ob \<and> last_beat_ms s' = last_beat_ms s
             \<and> ibi_buf s' = ibi_buf s \<and> ibi_count s' = ibi_count s)"
proof (cases "candidate_beat F s raw")
  case True
  then have "beat F (condition_signal F s raw)"
    by (simp add: candidate_beat_def Let_def)
  then show ?thesis
    unfolding beat_gates using update_post_fields[OF assms] by simp
next
  case False
  from update_no_candidate[OF False assms] show ?thesis by simp
qed

lemma ring_inv_reset: "ring_inv (PulseBpm_reset F r) []"
  by (simp add: ring_inv_def PulseBpm_reset_def)

lemma smod5_nat: "nat (int k smod 5) = k mod 5"
  by (simp add: signed_modulo_int_def nat_mod_distrib sgn_if)

lemma mod5_neq:
  assumes "i < k" "k \<le> i + 4"
  shows "i mod 5 \<noteq> k mod (5::nat)"
proof
  assume "i mod 5 = k mod 5"
  then have "k mod 5 = i mod 5" by simp
  then have "5 dvd k - i" using assms by (simp add: mod_eq_dvd_iff_nat)
  then have "5 \<le> k - i" using assms by (auto dest: dvd_imp_le)
  with assms show False by simp
qed

lemma ring_inv_push:
  assumes inv: "ring_inv s acc" and r: "333 \<le> ibi" "ibi \<le> 1500"
  shows "ring_inv (push_ibi s ibi) (acc @ [ibi])"
proof -
  let ?k = "length acc"
  let ?b = "ibi_buf s"
  let ?b' = "?b[?k mod 5 := ibi]"
  from inv have len: "length ?b = 5" and cnt: "ibi_count s = int ?k"
    and rng: "\<forall>x\<in>set acc. 333 \<le> x \<and> x \<le> 1500"
    and pos: "\<forall>i<?k. ?k \<le> i + 5 \<longrightarrow> ?b ! (i mod 5) = acc ! i"
    and ms: "mset (take (min ?k 5) ?b) = mset (take 5 (rev acc))"
    by (simp_all add: ring_inv_def)
  have buf': "ibi_buf (push_ibi s ibi) = ?b'" and cnt': "ibi_count (push_ibi s ibi) = int (Suc ?k)"
    by (simp_all add: push_ibi_def cnt smod5_nat)
  have pos': "\<forall>i<Suc ?k. Suc ?k \<le> i + 5 \<longrightarrow> ?b' ! (i mod 5) = (acc @ [ibi]) ! i"
  proof (intro allI impI)
    fix i assume i: "i < Suc ?k" "Suc ?k \<le> i + 5"
    show "?b' ! (i mod 5) = (acc @ [ibi]) ! i"
    proof (cases "i = ?k")
      case True
      then show ?thesis using len by simp
    next
      case False
      with i have lt: "i < ?k" "?k \<le> i + 4" by simp_all
      then have "i mod 5 \<noteq> ?k mod 5" by (rule mod5_neq)
      then have "?b' ! (i mod 5) = ?b ! (i mod 5)" by simp
      also have "\<dots> = acc ! i" using pos lt by simp
      finally show ?thesis using lt by (simp add: nth_append)
    qed
  qed
  have ms': "mset (take (min (Suc ?k) 5) ?b') = mset (take 5 (rev (acc @ [ibi])))"
  proof (cases "?k < 5")
    case True
    then have "take (Suc ?k) ?b' = take ?k ?b @ [ibi]"
      using len by (simp add: take_Suc_conv_app_nth)
    moreover have "take 5 (rev acc) = rev acc" "take 4 (rev acc) = rev acc" using True by simp_all
    ultimately show ?thesis using True ms by (simp add: min_def)
  next
    case False
    then have k5: "5 \<le> ?k" by simp
    have a: "mset ?b' = add_mset ibi (mset ?b - {#?b ! (?k mod 5)#})"
      using len by (simp add: mset_update)
    have "?b ! ((?k - 5) mod 5) = acc ! (?k - 5)" using pos k5 by simp
    moreover have "(?k - 5) mod 5 = ?k mod 5" using k5 by (simp add: le_mod_geq)
    ultimately have b: "?b ! (?k mod 5) = acc ! (?k - 5)" by simp
    have c: "take 5 (rev acc) = take 4 (rev acc) @ [rev acc ! 4]"
      using k5 take_Suc_conv_app_nth[of 4 "rev acc"] by simp
    have d: "rev acc ! 4 = acc ! (?k - 5)" using k5 by (simp add: rev_nth)
    have "mset ?b = mset (take 5 (rev acc))" using ms k5 len by (simp add: min_def)
    then have "mset ?b - {#?b ! (?k mod 5)#} = mset (take 4 (rev acc))"
      by (simp add: b c d)
    then show ?thesis using k5 len a by (simp add: min_def)
  qed
  show ?thesis
    unfolding ring_inv_def buf' cnt' using len rng r pos' ms' by simp
qed

lemma sum_list_lower: "\<forall>x\<in>set xs. (333::int) \<le> x \<Longrightarrow> 333 * int (length xs) \<le> sum_list xs"
  by (induction xs) auto

lemma sdiv_nonneg: "0 \<le> a \<Longrightarrow> 0 < b \<Longrightarrow> a sdiv b = a div (b::int)"
  by (simp add: signed_divide_int_def sgn_if)

lemma last5_props:
  assumes "\<forall>x\<in>set acc. 333 \<le> x \<and> x \<le> (1500::int)" "acc \<noteq> []"
  shows "\<forall>x\<in>set (take 5 (rev acc)). 333 \<le> x \<and> x \<le> 1500"
    and "length (take 5 (rev acc)) = min (length acc) 5"
    and "333 \<le> sum_list (take 5 (rev acc)) div int (min (length acc) 5)"
proof -
  show a: "\<forall>x\<in>set (take 5 (rev acc)). 333 \<le> x \<and> x \<le> 1500"
    using assms(1) by (auto dest: in_set_takeD)
  show b: "length (take 5 (rev acc)) = min (length acc) 5" by simp
  let ?n = "int (min (length acc) 5)"
  have n: "0 < ?n" using assms(2) by simp
  have "333 * ?n \<le> sum_list (take 5 (rev acc))"
    using sum_list_lower[of "take 5 (rev acc)"] a b by simp
  then have "(333 * ?n) div ?n \<le> sum_list (take 5 (rev acc)) div ?n"
    using n by (intro zdiv_mono1) simp_all
  then show "333 \<le> sum_list (take 5 (rev acc)) div ?n" using n by simp
qed

lemma ring_count_min:
  assumes "ring_inv s acc" "acc \<noteq> []"
  shows "min (ibi_count s) IBI_BUF = int (min (length acc) 5)"
    and "\<not> int (min (length acc) 5) \<le> 0"
  using assms by (cases acc; simp add: ring_inv_def)+

lemma average_ibi_ring:
  assumes "ring_inv s acc" "acc \<noteq> []"
  shows "average_ibi s = sum_list (take 5 (rev acc)) div int (min (length acc) 5)"
proof -
  from assms(1) have ms: "mset (take (min (length acc) 5) (ibi_buf s)) = mset (take 5 (rev acc))"
    and rng: "\<forall>x\<in>set acc. 333 \<le> x \<and> x \<le> 1500"
    by (simp_all add: ring_inv_def)
  note k = ring_count_min[OF assms]
  have a: "average_ibi s
           = sum_list (take (min (length acc) 5) (ibi_buf s)) sdiv int (min (length acc) 5)"
    by (simp only: average_ibi_def k Let_def if_False nat_int)
  have b: "sum_list (take (min (length acc) 5) (ibi_buf s)) = sum_list (take 5 (rev acc))"
    using ms by (metis sum_mset_sum_list)
  have c: "0 \<le> sum_list (take 5 (rev acc))"
    using sum_list_lower[of "take 5 (rev acc)"] last5_props(1)[OF rng assms(2)] by simp
  have d: "0 < int (min (length acc) 5)" using k(2) by linarith
  show ?thesis unfolding a b by (rule sdiv_nonneg[OF c d])
qed

lemma median_ibi_ring:
  assumes "ring_inv s acc" "acc \<noteq> []"
  shows "median_ibi s = sort (take 5 (rev acc)) ! (min (length acc) 5 div 2)"
    and "333 \<le> median_ibi s"
proof -
  from assms(1) have ms: "mset (take (min (length acc) 5) (ibi_buf s)) = mset (take 5 (rev acc))"
    and rng: "\<forall>x\<in>set acc. 333 \<le> x \<and> x \<le> 1500"
    by (simp_all add: ring_inv_def)
  note k = ring_count_min[OF assms]
  have a: "median_ibi s
           = sort (take (min (length acc) 5) (ibi_buf s)) ! nat (int (min (length acc) 5) sdiv 2)"
    by (simp only: median_ibi_def k Let_def if_False nat_int)
  have srt: "sort (take (min (length acc) 5) (ibi_buf s)) = sort (take 5 (rev acc))"
    using ms by (intro properties_for_sort) simp_all
  have "int (min (length acc) 5) sdiv 2 = int (min (length acc) 5) div 2"
    by (rule sdiv_nonneg) simp_all
  also have "\<dots> = int (min (length acc) 5 div 2)" by (simp only: zdiv_int of_nat_numeral)
  finally have half: "nat (int (min (length acc) 5) sdiv 2) = min (length acc) 5 div 2"
    by (simp only: nat_int)
  show m: "median_ibi s = sort (take 5 (rev acc)) ! (min (length acc) 5 div 2)"
    unfolding a srt half ..
  have "0 < min (length acc) 5" using assms(2) by simp
  then have "min (length acc) 5 div 2 < min (length acc) 5" by (rule div_less_dividend[rotated]) simp
  then have "min (length acc) 5 div 2 < length (sort (take 5 (rev acc)))" by simp
  then have "sort (take 5 (rev acc)) ! (min (length acc) 5 div 2) \<in> set (sort (take 5 (rev acc)))"
    by (rule nth_mem)
  then show "333 \<le> median_ibi s"
    using last5_props(1)[OF rng assms(2)] m by simp
qed

lemma narrow_int32_id: "- 2147483648 \<le> x \<Longrightarrow> x < 2147483648 \<Longrightarrow> narrow_int32 x = x"
  by (simp add: narrow_int32_def)

lemma register_beat_ring:
  assumes inv: "ring_inv s acc" and rb: "register_beat F s b ob = (res, s', ob')"
  shows "(res = Result.NONE \<and> ring_inv s' acc \<and> ob' = ob
            \<and> ibi_buf s' = ibi_buf s \<and> ibi_count s' = ibi_count s)
         \<or> (res = (if length acc + 1 < 3 then PROVISIONAL else STABLE)
            \<and> last_beat_ms s \<noteq> 0
            \<and> ring_inv s' (acc @ [narrow_int32 (b - last_beat_ms s)])
            \<and> ob' = 60000 div (sum_list (take 5 (rev (acc @ [narrow_int32 (b - last_beat_ms s)])))
                                div int (min (length acc + 1) 5)))"
proof -
  let ?ibi = "narrow_int32 (b - last_beat_ms s)"
  let ?acc' = "acc @ [?ibi]"
  from inv have cnt: "ibi_count s = int (length acc)" by (simp add: ring_inv_def)
  consider (first) "last_beat_ms s = 0"
    | (range) "last_beat_ms s \<noteq> 0" "?ibi < 333 \<or> 1500 < ?ibi"
    | (ratio) "last_beat_ms s \<noteq> 0" "\<not> (?ibi < 333 \<or> 1500 < ?ibi)"
        "ibi_count s \<ge> 3 \<and> median_ibi s > 0 \<and>
            (f_lt F (f_div F (f_of_int F ?ibi) (f_of_int F (median_ibi s))) (f_lit F 0.85)
             \<or> f_lt F (f_lit F 1.20) (f_div F (f_of_int F ?ibi) (f_of_int F (median_ibi s))))"
    | (push) "last_beat_ms s \<noteq> 0" "\<not> (?ibi < 333 \<or> 1500 < ?ibi)"
        "\<not> (ibi_count s \<ge> 3 \<and> median_ibi s > 0 \<and>
            (f_lt F (f_div F (f_of_int F ?ibi) (f_of_int F (median_ibi s))) (f_lit F 0.85)
             \<or> f_lt F (f_lit F 1.20) (f_div F (f_of_int F ?ibi) (f_of_int F (median_ibi s)))))"
    by blast
  then show ?thesis
  proof cases
    case first
    with rb have "res = Result.NONE" "s' = s\<lparr>last_beat_ms := b\<rparr>" "ob' = ob"
      by (simp_all add: register_beat_def)
    then show ?thesis using inv by (simp add: ring_inv_def)
  next
    case range
    with rb have "res = Result.NONE" "s' = s\<lparr>last_beat_ms := b\<rparr>" "ob' = ob"
      by (auto simp: register_beat_def Let_def)
    then show ?thesis using inv by (simp add: ring_inv_def)
  next
    case ratio
    with rb have "res = Result.NONE" "s' = s\<lparr>last_beat_ms := b\<rparr>" "ob' = ob"
      by (auto simp: register_beat_def Let_def)
    then show ?thesis using inv by (simp add: ring_inv_def)
  next
    case push
    from push(2) have r: "333 \<le> ?ibi" "?ibi \<le> 1500" by simp_all
    have inv': "ring_inv (push_ibi s ?ibi) ?acc'" by (rule ring_inv_push[OF inv r])
    have avg: "average_ibi (push_ibi s ?ibi)
                 = sum_list (take 5 (rev ?acc')) div int (min (length ?acc') 5)"
      by (rule average_ibi_ring[OF inv']) simp
    have rng': "\<forall>x\<in>set ?acc'. 333 \<le> x \<and> x \<le> 1500" using inv' by (simp add: ring_inv_def)
    have ge: "333 \<le> average_ibi (push_ibi s ?ibi)"
      unfolding avg using last5_props(3)[OF rng'] by simp
    have cnt': "ibi_count (push_ibi s ?ibi) = int (length acc) + 1"
      by (simp add: push_ibi_def cnt)
    from rb push ge have
      "res = (if ibi_count (push_ibi s ?ibi) < 3 then PROVISIONAL else STABLE)"
      "s' = (push_ibi s ?ibi)\<lparr>last_beat_ms := b\<rparr>"
      "ob' = 60000 sdiv average_ibi (push_ibi s ?ibi)"
      by (auto simp: register_beat_def Let_def)
    moreover have "ring_inv ((push_ibi s ?ibi)\<lparr>last_beat_ms := b\<rparr>) ?acc'"
      using inv' by (simp add: ring_inv_def)
    moreover have "60000 sdiv average_ibi (push_ibi s ?ibi) = 60000 div average_ibi (push_ibi s ?ibi)"
      using ge by (simp add: sdiv_nonneg)
    ultimately show ?thesis using push(1) cnt' avg by auto
  qed
qed

lemma update_ring:
  assumes inv: "ring_inv s acc" and up: "PulseBpm_update F s raw t ob oq = (res, s', ob', oq')"
  shows "(res = Result.NONE \<and> ring_inv s' acc \<and> ob' = ob
            \<and> ibi_buf s' = ibi_buf s \<and> ibi_count s' = ibi_count s)
         \<or> (res = (if length acc + 1 < 3 then PROVISIONAL else STABLE)
            \<and> last_beat_ms s \<noteq> 0
            \<and> ring_inv s' (acc @ [narrow_int32 (t - last_beat_ms s)])
            \<and> ob' = 60000 div (sum_list (take 5 (rev (acc @ [narrow_int32 (t - last_beat_ms s)])))
                                div int (min (length acc + 1) 5)))"
proof (cases "candidate_beat F s raw")
  case False
  from update_no_candidate[OF False up] inv show ?thesis
    by (simp add: ring_inv_def)
next
  case True
  let ?s6 = "condition_signal F s raw"
  let ?s7 = "?s6\<lparr>diff_prev := f_sub F (lp ?s6) (prev_filt ?s6), prev_filt := lp ?s6, prev_t_ms := t\<rparr>"
  obtain r1 s8 ob1 where rb: "register_beat F ?s7 t ob = (r1, s8, ob1)"
    by (cases "register_beat F ?s7 t ob") auto
  from up have eq: "res = r1" "s' = s8" "ob' = ob1"
    unfolding update_candidate[OF True] Let_def rb by simp_all
  have inv7: "ring_inv ?s7 acc" using inv by (simp add: ring_inv_def)
  from register_beat_ring[OF inv7 rb] show ?thesis unfolding eq by simp
qed

lemma run_ring:
  "ring_inv s acc \<Longrightarrow> PulseBpm_run F (s, acc) xs = (s', acc') \<Longrightarrow> ring_inv s' acc'"
proof (induction xs arbitrary: s acc)
  case Nil
  then show ?case by simp
next
  case (Cons x xs)
  obtain raw t where x: "x = (raw, t)" by (cases x)
  obtain res s1 ob oq where up: "PulseBpm_update F s raw t 0 (f_lit F 0) = (res, s1, ob, oq)"
    by (cases "PulseBpm_update F s raw t 0 (f_lit F 0)") auto
  let ?acc1 = "if res = Result.NONE then acc else acc @ [narrow_int32 (t - last_beat_ms s)]"
  have "ring_inv s1 ?acc1"
  proof (cases "res = Result.NONE")
    case True
    with update_ring[OF Cons.prems(1) up] show ?thesis by (simp split: if_splits)
  next
    case False
    with update_ring[OF Cons.prems(1) up] show ?thesis by simp
  qed
  moreover have "PulseBpm_run F (s1, ?acc1) xs = (s', acc')"
    using Cons.prems(2) by (simp add: x up)
  ultimately show ?case by (rule Cons.IH)
qed

lemma reachable_ring:
  "PulseBpm_run F (PulseBpm_reset F r0, []) xs = (s, acc) \<Longrightarrow> ring_inv s acc"
  by (rule run_ring[OF ring_inv_reset])

text \<open>
  C1, as the code has it. For every beat accepted by \<open>update\<close> in a state reached from
  \<open>reset\<close>, the returned bpm is \<open>60000 div (S div n)\<close>, both divisions truncating, where
  \<open>S\<close> is the sum of the last \<open>n\<close> accepted inter-beat intervals, \<open>n\<close> the smaller of 5
  and their number, the interval of this beat included. Each of these intervals lies in
  [333, 1500], and they are the contents of the first \<open>n\<close> slots of the ring.
\<close>

theorem C1_bpm_truncated:
  assumes "PulseBpm_run F (PulseBpm_reset F r0, []) xs = (s, acc)"
    and "PulseBpm_update F s raw t ob oq = (res, s', ob', oq')"
    and "res \<noteq> Result.NONE"
  shows "ob' = 60000 div (sum_list (take 5 (rev (acc @ [narrow_int32 (t - last_beat_ms s)])))
                          div int (min (length acc + 1) 5))
         \<and> (\<forall>x\<in>set (take 5 (rev (acc @ [narrow_int32 (t - last_beat_ms s)]))). 333 \<le> x \<and> x \<le> 1500)
         \<and> mset (take (min (length acc + 1) 5) (ibi_buf s'))
             = mset (take 5 (rev (acc @ [narrow_int32 (t - last_beat_ms s)])))"
proof -
  let ?acc' = "acc @ [narrow_int32 (t - last_beat_ms s)]"
  from update_ring[OF reachable_ring[OF assms(1)] assms(2)] assms(3)
  have "ring_inv s' ?acc'
    \<and> ob' = 60000 div (sum_list (take 5 (rev ?acc')) div int (min (length acc + 1) 5))"
    by blast
  then have inv': "ring_inv s' ?acc'"
    and bpm: "ob' = 60000 div (sum_list (take 5 (rev ?acc')) div int (min (length acc + 1) 5))"
    by blast+
  from inv' have rng: "\<forall>x\<in>set ?acc'. 333 \<le> x \<and> x \<le> 1500"
    and ms: "mset (take (min (length ?acc') 5) (ibi_buf s')) = mset (take 5 (rev ?acc'))"
    by (simp_all add: ring_inv_def)
  have "\<forall>x\<in>set (take 5 (rev ?acc')). 333 \<le> x \<and> x \<le> 1500"
    by (rule last5_props(1)[OF rng]) simp
  with bpm ms show ?thesis by simp
qed

lemma register_beat_reject:
  assumes "last_beat_ms s = 0
           \<or> narrow_int32 (b - last_beat_ms s) < 333 \<or> 1500 < narrow_int32 (b - last_beat_ms s)
           \<or> (3 \<le> ibi_count s \<and> 0 < median_ibi s
               \<and> (f_lt F (f_div F (f_of_int F (narrow_int32 (b - last_beat_ms s)))
                              (f_of_int F (median_ibi s))) (f_lit F 0.85)
                  \<or> f_lt F (f_lit F 1.20)
                       (f_div F (f_of_int F (narrow_int32 (b - last_beat_ms s)))
                              (f_of_int F (median_ibi s)))))"
  shows "register_beat F s b ob = (Result.NONE, s\<lparr>last_beat_ms := b\<rparr>, ob)"
  using assms unfolding register_beat_def Let_def IBI_consts by (elim disjE) simp_all

text \<open>
  C6. In a state reached from \<open>reset\<close>, let \<open>update\<close> register a candidate beat at
  \<open>t\<close> with interval \<open>ibi = (int)(t - last_beat_ms)\<close>. If \<open>ibi\<close> is outside [333, 1500],
  or at least 3 intervals are on record and the float ratio of \<open>ibi\<close> to the median of
  the last at most 5 of them (element \<open>n div 2\<close> of the sorted list) is below \<open>0.85f\<close> or
  above \<open>1.20f\<close>, then \<open>update\<close> returns \<open>Result.NONE\<close>, the ring, the count and \<open>out_bpm\<close>
  are unchanged, and the last-beat timestamp is \<open>t\<close>.
\<close>

theorem C6_rejected_beat:
  assumes run: "PulseBpm_run F (PulseBpm_reset F r0, []) xs = (s, acc)"
    and cand: "candidate_beat F s raw"
    and up: "PulseBpm_update F s raw t ob oq = (res, s', ob', oq')"
    and ibi: "ibi = narrow_int32 (t - last_beat_ms s)"
    and ratio: "ratio = f_div F (f_of_int F ibi)
                          (f_of_int F (sort (take 5 (rev acc)) ! (min (length acc) 5 div 2)))"
    and rej: "ibi < 333 \<or> 1500 < ibi
              \<or> (3 \<le> length acc \<and> (f_lt F ratio (f_lit F 0.85) \<or> f_lt F (f_lit F 1.20) ratio))"
  shows "res = Result.NONE \<and> ibi_buf s' = ibi_buf s \<and> ibi_count s' = ibi_count s
         \<and> last_beat_ms s' = t \<and> ob' = ob"
proof -
  let ?s6 = "condition_signal F s raw"
  let ?s7 = "?s6\<lparr>diff_prev := f_sub F (lp ?s6) (prev_filt ?s6), prev_filt := lp ?s6, prev_t_ms := t\<rparr>"
  have inv: "ring_inv s acc" by (rule reachable_ring[OF run])
  have inv7: "ring_inv ?s7 acc" using inv by (simp add: ring_inv_def)
  have cnt: "ibi_count ?s7 = int (length acc)" using inv by (simp add: ring_inv_def)
  obtain r1 s8 ob1 where rb: "register_beat F ?s7 t ob = (r1, s8, ob1)"
    by (cases "register_beat F ?s7 t ob") auto
  from up have eq: "res = r1" "s' = s8" "ob' = ob1"
    unfolding update_candidate[OF cand] Let_def rb by simp_all
  have med: "3 \<le> length acc \<Longrightarrow>
               median_ibi ?s7 = sort (take 5 (rev acc)) ! (min (length acc) 5 div 2)
               \<and> 0 < median_ibi ?s7"
    using median_ibi_ring[OF inv7] by fastforce
  have l7: "last_beat_ms ?s7 = last_beat_ms s" by simp
  have "register_beat F ?s7 t ob = (Result.NONE, ?s7\<lparr>last_beat_ms := t\<rparr>, ob)"
  proof (cases "ibi < 333 \<or> 1500 < ibi")
    case True
    then show ?thesis by (intro register_beat_reject) (auto simp only: l7 ibi)
  next
    case False
    with rej have r3: "3 \<le> length acc"
      and rr: "f_lt F ratio (f_lit F 0.85) \<or> f_lt F (f_lit F 1.20) ratio" by blast+
    from med[OF r3] have m: "median_ibi ?s7 = sort (take 5 (rev acc)) ! (min (length acc) 5 div 2)"
      and mp: "0 < median_ibi ?s7" by blast+
    have c3: "3 \<le> ibi_count ?s7" using r3 cnt by simp
    from rr have "f_lt F (f_div F (f_of_int F (narrow_int32 (t - last_beat_ms ?s7)))
                            (f_of_int F (median_ibi ?s7))) (f_lit F 0.85)
                  \<or> f_lt F (f_lit F 1.20) (f_div F (f_of_int F (narrow_int32 (t - last_beat_ms ?s7)))
                            (f_of_int F (median_ibi ?s7)))"
      unfolding m ratio l7 ibi .
    with c3 mp show ?thesis by (intro register_beat_reject) blast
  qed
  with rb have "r1 = Result.NONE \<and> s8 = ?s7\<lparr>last_beat_ms := t\<rparr> \<and> ob1 = ob" by simp
  then show ?thesis unfolding eq by simp
qed

lemma rounded_ops_simps [simp]:
  "f_of_int (rounded_ops rnd) i = rnd (of_int i)"
  "f_lit (rounded_ops rnd) c = rnd c"
  "f_add (rounded_ops rnd) a b = rnd (a + b)"
  "f_sub (rounded_ops rnd) a b = rnd (a - b)"
  "f_mul (rounded_ops rnd) a b = rnd (a * b)"
  "f_div (rounded_ops rnd) a b = rnd (a / b)"
  "f_abs (rounded_ops rnd) a = \<bar>a\<bar>"
  "f_lt (rounded_ops rnd) a b = (a < b)"
  "f_le (rounded_ops rnd) a b = (a \<le> b)"
  by (simp_all add: rounded_ops_def)

lemma decay_step_below:
  fixes rnd :: "real \<Rightarrow> real"
  assumes mono: "\<forall>a b. a \<le> b \<longrightarrow> rnd a \<le> rnd b"
    and bound: "\<forall>y. \<bar>rnd y\<bar> \<le> 2 * \<bar>y\<bar>"
    and rep: "rnd x = x"
    and le: "m \<le> x"
  shows "rnd (m + rnd (rnd 0.01 * rnd (x - m))) \<le> x"
proof -
  have r0: "rnd 0 = 0" using bound[rule_format, of 0] by simp
  have nonneg: "0 \<le> rnd y" if "0 \<le> y" for y
    using mono[rule_format, OF that] r0 by simp
  have up: "rnd y \<le> 2 * y" if "0 \<le> y" for y
    using bound[rule_format, of y] that by simp
  let ?d = "x - m"
  have d0: "0 \<le> ?d" using le by simp
  have c: "0 \<le> rnd 0.01" "rnd 0.01 \<le> 0.02"
    using nonneg[of "0.01"] up[of "0.01"] by simp_all
  have rd: "0 \<le> rnd ?d" "rnd ?d \<le> 2 * ?d" using nonneg[OF d0] up[OF d0] by simp_all
  have p0: "0 \<le> rnd 0.01 * rnd ?d" using c(1) rd(1) by simp
  have "rnd 0.01 * rnd ?d \<le> 0.02 * (2 * ?d)"
    using c rd by (intro mult_mono) simp_all
  then have "rnd (rnd 0.01 * rnd ?d) \<le> 2 * (0.02 * (2 * ?d))"
    using up[OF p0] by linarith
  then have "m + rnd (rnd 0.01 * rnd ?d) \<le> x" using d0 by simp
  from mono[rule_format, OF this] show ?thesis by (simp add: rep)
qed

lemma decay_step_above:
  fixes rnd :: "real \<Rightarrow> real"
  assumes mono: "\<forall>a b. a \<le> b \<longrightarrow> rnd a \<le> rnd b"
    and bound: "\<forall>y. \<bar>rnd y\<bar> \<le> 2 * \<bar>y\<bar>"
    and rep: "rnd x = x"
    and le: "x \<le> m"
  shows "x \<le> rnd (m + rnd (rnd 0.01 * rnd (x - m)))"
proof -
  have r0: "rnd 0 = 0" using bound[rule_format, of 0] by simp
  have nonneg: "0 \<le> rnd y" if "0 \<le> y" for y
    using mono[rule_format, OF that] r0 by simp
  have nonpos: "rnd y \<le> 0" if "y \<le> 0" for y
    using mono[rule_format, OF that] r0 by simp
  have up: "rnd y \<le> 2 * y" if "0 \<le> y" for y
    using bound[rule_format, of y] that by simp
  have down: "2 * y \<le> rnd y" if "y \<le> 0" for y
    using bound[rule_format, of y] that by simp
  let ?d = "x - m"
  have d0: "?d \<le> 0" using le by simp
  have c: "0 \<le> rnd 0.01" "rnd 0.01 \<le> 0.02"
    using nonneg[of "0.01"] up[of "0.01"] by simp_all
  have rd: "rnd ?d \<le> 0" "2 * ?d \<le> rnd ?d" using nonpos[OF d0] down[OF d0] by simp_all
  have p0: "rnd 0.01 * rnd ?d \<le> 0" using c(1) rd(1) by (simp add: mult_nonneg_nonpos)
  have "rnd 0.01 * (- rnd ?d) \<le> 0.02 * (- (2 * ?d))"
    using c rd by (intro mult_mono) simp_all
  then have "0.02 * (2 * ?d) \<le> rnd 0.01 * rnd ?d" by simp
  then have "2 * (0.02 * (2 * ?d)) \<le> rnd (rnd 0.01 * rnd ?d)"
    using down[OF p0] by linarith
  then have "x \<le> m + rnd (rnd 0.01 * rnd ?d)" using d0 by simp
  from mono[rule_format, OF this] show ?thesis by (simp add: rep)
qed

text \<open>A decay step moves a representable bound toward the sample, never away from it.\<close>

lemma decay_step_toward:
  fixes rnd :: "real \<Rightarrow> real"
  assumes mono: "\<forall>a b. a \<le> b \<longrightarrow> rnd a \<le> rnd b"
    and bound: "\<forall>y. \<bar>rnd y\<bar> \<le> 2 * \<bar>y\<bar>"
    and repm: "rnd m = m"
  shows "m \<le> x \<Longrightarrow> m \<le> rnd (m + rnd (rnd 0.01 * rnd (x - m)))"
    and "x \<le> m \<Longrightarrow> rnd (m + rnd (rnd 0.01 * rnd (x - m))) \<le> m"
proof -
  have r0: "rnd 0 = 0" using bound[rule_format, of 0] by simp
  have nonneg: "0 \<le> rnd y" if "0 \<le> y" for y
    using mono[rule_format, OF that] r0 by simp
  have nonpos: "rnd y \<le> 0" if "y \<le> 0" for y
    using mono[rule_format, OF that] r0 by simp
  have c: "0 \<le> rnd 0.01" using nonneg[of "0.01"] by simp
  {
    assume "m \<le> x"
    then have "0 \<le> rnd (x - m)" by (intro nonneg) simp
    with c have "0 \<le> rnd (rnd 0.01 * rnd (x - m))" by (intro nonneg) simp
    then have "m \<le> m + rnd (rnd 0.01 * rnd (x - m))" by simp
    from mono[rule_format, OF this] show "m \<le> rnd (m + rnd (rnd 0.01 * rnd (x - m)))"
      by (simp add: repm)
  }
  {
    assume "x \<le> m"
    then have "rnd (x - m) \<le> 0" by (intro nonpos) simp
    with c have "rnd (rnd 0.01 * rnd (x - m)) \<le> 0"
      by (intro nonpos) (simp add: mult_nonneg_nonpos)
    then have "m + rnd (rnd 0.01 * rnd (x - m)) \<le> m" by simp
    from mono[rule_format, OF this] show "rnd (m + rnd (rnd 0.01 * rnd (x - m))) \<le> m"
      by (simp add: repm)
  }
qed

text \<open>
  C7. The float arithmetic is taken as real arithmetic followed by a rounding \<open>rnd\<close> of
  which three facts are used: it is monotone, it at most doubles the magnitude of its
  argument (so it maps 0 to 0), and the sample \<open>x\<close> is a value it leaves fixed. Rounding
  to nearest has these properties as long as nothing overflows. Then after every call of
  \<open>update_envelope\<close>, first or later, \<open>env_min \<le> x \<le> env_max\<close>. With the envelope
  initialised, a sample below the minimum or above the maximum becomes the new bound at
  once; a bound the sample has not crossed decays at rate 0.01, to
  \<open>bound + 0.01 * (x - bound)\<close> computed in the rounded arithmetic, and a bound that is
  itself a fixed value of \<open>rnd\<close> thereby moves toward the sample and stays on its side
  of it.
\<close>

theorem C7_envelope_brackets_signal:
  assumes mono: "\<forall>a b. a \<le> b \<longrightarrow> rnd a \<le> rnd b"
    and bound: "\<forall>y. \<bar>rnd y\<bar> \<le> 2 * \<bar>y\<bar>"
    and rep: "rnd x = x"
  shows "env_min (update_envelope (rounded_ops rnd) s x) \<le> x
         \<and> x \<le> env_max (update_envelope (rounded_ops rnd) s x)
         \<and> (env_inited s \<and> x < env_min s \<longrightarrow> env_min (update_envelope (rounded_ops rnd) s x) = x)
         \<and> (env_inited s \<and> env_max s < x \<longrightarrow> env_max (update_envelope (rounded_ops rnd) s x) = x)
         \<and> (env_inited s \<and> env_min s \<le> x \<longrightarrow>
              env_min (update_envelope (rounded_ops rnd) s x)
                = rnd (env_min s + rnd (rnd 0.01 * rnd (x - env_min s))))
         \<and> (env_inited s \<and> x \<le> env_max s \<longrightarrow>
              env_max (update_envelope (rounded_ops rnd) s x)
                = rnd (env_max s + rnd (rnd 0.01 * rnd (x - env_max s))))
         \<and> (env_inited s \<and> env_min s \<le> x \<and> rnd (env_min s) = env_min s \<longrightarrow>
              env_min s \<le> env_min (update_envelope (rounded_ops rnd) s x))
         \<and> (env_inited s \<and> x \<le> env_max s \<and> rnd (env_max s) = env_max s \<longrightarrow>
              env_max (update_envelope (rounded_ops rnd) s x) \<le> env_max s)"
proof (cases "env_inited s")
  case False
  then show ?thesis by (simp add: update_envelope_def)
next
  case True
  have lo: "env_min (update_envelope (rounded_ops rnd) s x) \<le> x"
    using True decay_step_below[OF mono bound rep, of "env_min s"]
    by (simp add: update_envelope_def Let_def)
  have hi: "x \<le> env_max (update_envelope (rounded_ops rnd) s x)"
    using True decay_step_above[OF mono bound rep, of "env_max s"]
    by (simp add: update_envelope_def Let_def)
  have snap_lo: "x < env_min s \<longrightarrow> env_min (update_envelope (rounded_ops rnd) s x) = x"
    using True by (simp add: update_envelope_def Let_def)
  have snap_hi: "env_max s < x \<longrightarrow> env_max (update_envelope (rounded_ops rnd) s x) = x"
    using True by (simp add: update_envelope_def Let_def)
  have dec_lo: "env_min s \<le> x \<longrightarrow> env_min (update_envelope (rounded_ops rnd) s x)
                = rnd (env_min s + rnd (rnd 0.01 * rnd (x - env_min s)))"
    using True by (simp add: update_envelope_def Let_def)
  have dec_hi: "x \<le> env_max s \<longrightarrow> env_max (update_envelope (rounded_ops rnd) s x)
                = rnd (env_max s + rnd (rnd 0.01 * rnd (x - env_max s)))"
    using True by (simp add: update_envelope_def Let_def)
  have tow_lo: "env_min s \<le> x \<and> rnd (env_min s) = env_min s \<longrightarrow>
              env_min s \<le> env_min (update_envelope (rounded_ops rnd) s x)"
    using dec_lo decay_step_toward(1)[OF mono bound, of "env_min s" x] by simp
  have tow_hi: "x \<le> env_max s \<and> rnd (env_max s) = env_max s \<longrightarrow>
              env_max (update_envelope (rounded_ops rnd) s x) \<le> env_max s"
    using dec_hi decay_step_toward(2)[OF mono bound, of "env_max s" x] by simp
  from lo hi snap_lo snap_hi dec_lo dec_hi tow_lo tow_hi show ?thesis by blast
qed

lemma fixed_rnd_mono: "\<forall>a b. a \<le> b \<longrightarrow> fixed_rnd a \<le> fixed_rnd b"
  by (auto simp: fixed_rnd_def divide_right_mono intro!: round_mono)

lemma fixed_rnd_bound: "\<forall>y. \<bar>fixed_rnd y\<bar> \<le> 2 * \<bar>y\<bar>"
proof
  fix y :: real
  let ?z = "y * 1024"
  have a: "\<bar>real_of_int (round ?z)\<bar> \<le> 2 * \<bar>?z\<bar>"
  proof (cases "\<bar>?z\<bar> < 1/2")
    case True
    then have "round ?z = 0" unfolding round_def by (intro floor_unique) (auto simp: abs_less_iff)
    then show ?thesis by simp
  next
    case False
    have "\<bar>real_of_int (round ?z) - ?z\<bar> \<le> 1/2" by (rule of_int_round_abs_le)
    then have "\<bar>real_of_int (round ?z)\<bar> \<le> \<bar>?z\<bar> + 1/2" by linarith
    with False show ?thesis by linarith
  qed
  have "\<bar>fixed_rnd y\<bar> = \<bar>real_of_int (round ?z)\<bar> / 1024" by (simp add: fixed_rnd_def)
  also have "\<dots> \<le> 2 * \<bar>?z\<bar> / 1024" using a by (intro divide_right_mono) simp_all
  also have "\<dots> = 2 * \<bar>y\<bar>" by (simp add: abs_mult)
  finally show "\<bar>fixed_rnd y\<bar> \<le> 2 * \<bar>y\<bar>" .
qed

lemma fixed_rnd_3: "fixed_rnd 3 = 3"
  by (simp add: fixed_rnd_def)

theorem C7_witness:
  "env_inited env_state \<and> env_min env_state = 1 \<and> env_max env_state = 4
   \<and> fixed_rnd 0.01 = 5 / 512
   \<and> env_min (update_envelope (rounded_ops fixed_rnd) env_state 3) = 1 + (5 / 512) * (3 - 1)
   \<and> env_max (update_envelope (rounded_ops fixed_rnd) env_state 3) = 4 + (5 / 512) * (3 - 4)
   \<and> 1 \<le> env_min (update_envelope (rounded_ops fixed_rnd) env_state 3)
   \<and> env_min (update_envelope (rounded_ops fixed_rnd) env_state 3) \<le> 3
   \<and> 3 \<le> env_max (update_envelope (rounded_ops fixed_rnd) env_state 3)
   \<and> env_max (update_envelope (rounded_ops fixed_rnd) env_state 3) \<le> 4"
proof -
  have s: "env_inited env_state" "env_min env_state = 1" "env_max env_state = 4"
    by (simp_all add: env_state_def)
  have v: "fixed_rnd (1 / 100) = 5 / 512" "fixed_rnd 2 = 2" "fixed_rnd (- 1) = - 1"
    "fixed_rnd (5 / 256) = 5 / 256" "fixed_rnd (- (5 / 512)) = - (5 / 512)"
    "fixed_rnd (261 / 256) = 261 / 256" "fixed_rnd (2043 / 512) = 2043 / 512"
    by (simp_all add: fixed_rnd_def round_def)
  from C7_envelope_brackets_signal[OF fixed_rnd_mono fixed_rnd_bound fixed_rnd_3, of env_state]
  show ?thesis
    by (simp add: s v)
qed


text \<open>
  C9. For every initial raw value, every raw sample and every timestamp, \<open>reset\<close>
  followed by one \<open>update\<close> returns \<open>Result.NONE\<close>, whatever the float arithmetic does: the
  first sample can only arm timing.
\<close>

theorem C9_reset_then_update_is_NONE:
  "fst (PulseBpm_update F (PulseBpm_reset F initial_raw) raw t out_bpm out_quality) = Result.NONE"
proof -
  have "\<not> have_prev (condition_signal F (PulseBpm_reset F initial_raw) raw)"
    by (simp add: PulseBpm_reset_def)
  then show ?thesis
    by (simp add: PulseBpm_update_def Let_def)
qed

theorem C9_witness:
  "fst (PulseBpm_update exact_ops (PulseBpm_reset exact_ops 2000) 2000 100 0 0) = Result.NONE"
  by (rule C9_reset_then_update_is_NONE)

subsection \<open>The concrete run\<close>

lemmas eval_defs = PulseBpm_update_def condition_signal_def exact_ops_def rounded_ops_def update_envelope_def Let_def
     beat_def thr_def fmax_def clampf_def p2p_min_adapt_def quality_score_def register_beat_def narrow_int32_def
     LLONG_MAX_def push_ibi_def average_ibi_def median_ibi_def
     signed_divide_int_def signed_modulo_int_def

lemma run_step1:
  "PulseBpm_update exact_ops (PulseBpm_reset exact_ops 2000) 2000 100 0 0 = (Result.NONE, run_s1, 0, 3 / 10)"
  by (simp add: eval_defs PulseBpm_reset_def run_s1_def)

lemma run_step2:
  "PulseBpm_update exact_ops (run_s1) 1400 200 0 0 = (Result.NONE, run_s2, 0, 5010897 / 7000000)"
  by (simp add: eval_defs run_s1_def run_s2_def)

lemma run_step3:
  "PulseBpm_update exact_ops (run_s2) 3800 300 0 0 = (Result.NONE, run_s3, 0, 8867186463 / 17500000000)"
  by (simp add: eval_defs run_s2_def run_s3_def)

lemma run_step4:
  "PulseBpm_update exact_ops (run_s3) 2000 400 0 0 = (Result.NONE, run_s4, 0, 183391971801 / 350000000000)"
  by (simp add: eval_defs run_s3_def run_s4_def)

lemma run_step5:
  "PulseBpm_update exact_ops (run_s4) 3800 800 0 0 = (Result.NONE, run_s5, 0, 11 / 20)"
  by (simp add: eval_defs run_s4_def run_s5_def)

lemma run_step6_accept:
  "PulseBpm_update exact_ops run_s5 2000 1100 0 0 =
    (PROVISIONAL,
     \<lparr> baseline = 101476090297 / 50000000, lp = 959062640877 / 2500000000, env_inited = True,
       env_min = - (5627634355431 / 62500000000), env_max = 118352230813377 / 250000000000,
       last_beat_ms = 1100, have_prev = True, prev_filt = 959062640877 / 2500000000,
       prev_t_ms = 1100, diff_prev = - (226726936623 / 2500000000),
       ibi_buf = [700, 0, 0, 0, 0], ibi_count = 1,
       p2p_ema = 198212550670233 / 1250000000000, noise_ema = 1020770016651 / 25000000000,
       last_p2p = 140862768235101 / 250000000000 \<rparr>,
     85, 11 / 20)"
  by (simp add: eval_defs run_s5_def)

lemma run_step6_reject:
  "PulseBpm_update exact_ops run_s5 2000 3000 0 0 =
    (Result.NONE,
     \<lparr> baseline = 101476090297 / 50000000, lp = 959062640877 / 2500000000, env_inited = True,
       env_min = - (5627634355431 / 62500000000), env_max = 118352230813377 / 250000000000,
       last_beat_ms = 3000, have_prev = True, prev_filt = 959062640877 / 2500000000,
       prev_t_ms = 3000, diff_prev = - (226726936623 / 2500000000),
       ibi_buf = [0, 0, 0, 0, 0], ibi_count = 0,
       p2p_ema = 198212550670233 / 1250000000000, noise_ema = 1020770016651 / 25000000000,
       last_p2p = 140862768235101 / 250000000000 \<rparr>,
     0, 11 / 20)"
  by (simp add: eval_defs run_s5_def)

lemma run_samples_result:
  "PulseBpm_run exact_ops (PulseBpm_reset exact_ops 2000, []) run_samples = (run_s5, [])"
proof -
  have z: "f_lit exact_ops 0 = 0" by (simp add: exact_ops_def rounded_ops_def)
  show ?thesis
    by (simp add: run_samples_def z run_step1 run_step2 run_step3 run_step4 run_step5)
qed

theorem C10_witness:
  "PulseBpm_update exact_ops (PulseBpm_reset exact_ops 2000) 2000 100 7 (9 / 10)
     = (Result.NONE, run_s1, 7, 3 / 10)
   \<and> (3 / 10 :: real)
       = min 1 (max 0 (0.55 * min 1 (max 0 (p2p_ema run_s1 / 140))
                       + 0.30 * min 1 (max 0 (1 - noise_ema run_s1 / 25))
                       + 0.15 * min 1 (max 0 (real_of_int (min (ibi_count (PulseBpm_reset exact_ops 2000 :: real PulseBpm)) 5) / 5))))"
proof -
  have e: "PulseBpm_update exact_ops (PulseBpm_reset exact_ops 2000) 2000 100 7 (9 / 10)
     = (Result.NONE, run_s1, 7, 3 / 10)"
    by (simp add: eval_defs PulseBpm_reset_def run_s1_def)
  have "(3 / 10 :: real)
       = min 1 (max 0 (0.55 * min 1 (max 0 (p2p_ema run_s1 / 140))
                       + 0.30 * min 1 (max 0 (1 - noise_ema run_s1 / 25))
                       + 0.15 * min 1 (max 0 (real_of_int (min (ibi_count (PulseBpm_reset exact_ops 2000 :: real PulseBpm)) 5) / 5))))"
    using C10_out_params[OF e]
    by (simp add: run_s1_def PulseBpm_reset_def exact_ops_def rounded_ops_def)
  with e show ?thesis by (rule conjI)
qed

theorem C5_witness:
  "fst (PulseBpm_update exact_ops run_s5 2000 1100 0 0) = PROVISIONAL
   \<and> (0 < diff_prev run_s5
   \<and> lp (fst (snd (PulseBpm_update exact_ops run_s5 2000 1100 0 0))) - prev_filt run_s5 \<le> 0
   \<and> 333 \<le> prev_t_ms run_s5 - last_beat_ms run_s5
   \<and> max 22 (max (0.26 * p2p_ema (fst (snd (PulseBpm_update exact_ops run_s5 2000 1100 0 0))))
                   (6 * noise_ema (fst (snd (PulseBpm_update exact_ops run_s5 2000 1100 0 0)))))
       < prev_filt run_s5
   \<and> 0.50 * p2p_ema (fst (snd (PulseBpm_update exact_ops run_s5 2000 1100 0 0)))
       < prev_filt run_s5 - env_min (fst (snd (PulseBpm_update exact_ops run_s5 2000 1100 0 0))))"
proof -
  have 1: "fst (PulseBpm_update exact_ops run_s5 2000 1100 0 0) = PROVISIONAL"
    by (simp add: run_step6_accept)
  have 2: "0 < diff_prev run_s5
   \<and> lp (fst (snd (PulseBpm_update exact_ops run_s5 2000 1100 0 0))) - prev_filt run_s5 \<le> 0
   \<and> 333 \<le> prev_t_ms run_s5 - last_beat_ms run_s5
   \<and> max 22 (max (0.26 * p2p_ema (fst (snd (PulseBpm_update exact_ops run_s5 2000 1100 0 0))))
                   (6 * noise_ema (fst (snd (PulseBpm_update exact_ops run_s5 2000 1100 0 0)))))
       < prev_filt run_s5
   \<and> 0.50 * p2p_ema (fst (snd (PulseBpm_update exact_ops run_s5 2000 1100 0 0)))
       < prev_filt run_s5 - env_min (fst (snd (PulseBpm_update exact_ops run_s5 2000 1100 0 0)))"
    unfolding run_step6_accept fst_conv snd_conv
    using C5_beat_needs_all_gates[OF run_step6_accept]
    by (simp add: run_s5_def exact_ops_def rounded_ops_def fmax_def)
  from 1 2 show ?thesis by (rule conjI)
qed

text \<open>
  The bpm is not the rounded quotient: after \<open>reset(2000)\<close> and the five samples of
  \<open>run_samples\<close>, the sample at 1100 ms is accepted with the single interval 700 on
  record and bpm 85, while \<open>60000 / 700\<close> rounds to 86.
\<close>

theorem C1_counterexample:
  "PulseBpm_run exact_ops (PulseBpm_reset exact_ops 2000, []) run_samples = (run_s5, [])
   \<and> fst (PulseBpm_update exact_ops run_s5 2000 1100 0 0) = PROVISIONAL
   \<and> fst (snd (snd (PulseBpm_update exact_ops run_s5 2000 1100 0 0))) = 85
   \<and> narrow_int32 (1100 - last_beat_ms run_s5) = 700
   \<and> round (60000 / (real_of_int (sum_list [700]) / real (length [700::int]))) = 86"
proof -
  have "narrow_int32 (1100 - last_beat_ms run_s5) = 700"
    by (simp add: narrow_int32_def run_s5_def)
  moreover have "round (60000 / (real_of_int (sum_list [700]) / real (length [700::int]))) = 86"
    by (simp add: round_def)
  ultimately show ?thesis
    by (simp only: run_samples_result run_step6_accept fst_conv snd_conv simp_thms)
qed

theorem C1_witness:
  "(85::int) = 60000 div (sum_list (take 5 (rev ([] @ [narrow_int32 (1100 - last_beat_ms run_s5)])))
                          div int (min (length ([]::int list) + 1) 5))
   \<and> narrow_int32 (1100 - last_beat_ms run_s5) = 700"
proof -
  have "PROVISIONAL \<noteq> Result.NONE" by simp
  from C1_bpm_truncated[OF run_samples_result run_step6_accept this]
  show ?thesis by (simp add: narrow_int32_def run_s5_def)
qed

lemma run_s5_candidate: "candidate_beat exact_ops run_s5 2000"
  by (simp add: candidate_beat_def eval_defs run_s5_def)

theorem C6_witness:
  "narrow_int32 (3000 - last_beat_ms run_s5) = 2600
   \<and> fst (PulseBpm_update exact_ops run_s5 2000 3000 0 0) = Result.NONE
   \<and> ibi_buf (fst (snd (PulseBpm_update exact_ops run_s5 2000 3000 0 0))) = ibi_buf run_s5
   \<and> ibi_count (fst (snd (PulseBpm_update exact_ops run_s5 2000 3000 0 0))) = ibi_count run_s5
   \<and> last_beat_ms (fst (snd (PulseBpm_update exact_ops run_s5 2000 3000 0 0))) = 3000
   \<and> fst (snd (snd (PulseBpm_update exact_ops run_s5 2000 3000 0 0))) = 0"
proof -
  have i: "narrow_int32 (3000 - last_beat_ms run_s5) = 2600"
    by (simp add: narrow_int32_def run_s5_def)
  have rej: "narrow_int32 (3000 - last_beat_ms run_s5) < 333 \<or> 1500 < narrow_int32 (3000 - last_beat_ms run_s5)
     \<or> (3 \<le> length ([]::int list) \<and>
          (f_lt exact_ops (f_div exact_ops (f_of_int exact_ops (narrow_int32 (3000 - last_beat_ms run_s5)))
                 (f_of_int exact_ops (sort (take 5 (rev [])) ! (min (length ([]::int list)) 5 div 2))))
              (f_lit exact_ops 0.85)
           \<or> f_lt exact_ops (f_lit exact_ops 1.20)
               (f_div exact_ops (f_of_int exact_ops (narrow_int32 (3000 - last_beat_ms run_s5)))
                 (f_of_int exact_ops (sort (take 5 (rev [])) ! (min (length ([]::int list)) 5 div 2))))))"
    unfolding i by simp
  from C6_rejected_beat[OF run_samples_result run_s5_candidate run_step6_reject refl refl rej] i
  show ?thesis by (simp add: run_step6_reject)
qed

section \<open>Properties of HrAnomalyDetector\<close>

lemma push_hist_frame [simp]:
  "cfg (push_hist s r) = cfg s" "active_alarm (push_hist s r) = active_alarm s"
  "clear_since_ms (push_hist s r) = clear_since_ms s"
  "no_signal_since_ms (push_hist s r) = no_signal_since_ms s"
  "abnormal_since_ms (push_hist s r) = abnormal_since_ms s"
  "abnormal_kind (push_hist s r) = abnormal_kind s"
  by (simp_all add: push_hist_def)

lemma track_no_signal_frame [simp]:
  "cfg (track_no_signal F s r) = cfg s" "active_alarm (track_no_signal F s r) = active_alarm s"
  "clear_since_ms (track_no_signal F s r) = clear_since_ms s"
  "hist (track_no_signal F s r) = hist s" "hist_wr (track_no_signal F s r) = hist_wr s"
  "hist_count (track_no_signal F s r) = hist_count s"
  "abnormal_since_ms (track_no_signal F s r) = abnormal_since_ms s"
  "abnormal_kind (track_no_signal F s r) = abnormal_kind s"
  by (simp_all add: track_no_signal_def Let_def)

lemma sustained_frame [simp]:
  "cfg (snd (sustained s r)) = cfg s" "active_alarm (snd (sustained s r)) = active_alarm s"
  "clear_since_ms (snd (sustained s r)) = clear_since_ms s"
  "hist (snd (sustained s r)) = hist s" "hist_wr (snd (sustained s r)) = hist_wr s"
  "hist_count (snd (sustained s r)) = hist_count s"
  "no_signal_since_ms (snd (sustained s r)) = no_signal_since_ms s"
  by (simp_all add: sustained_def Let_def)

lemma classify_unfold:
  "classify F s r =
     (let s1 = push_hist (track_no_signal F s r) r
      in if no_signal_since_ms s1 \<noteq> 0 \<and> t_ms r - no_signal_since_ms s1 \<ge> no_signal_ms (cfg s1)
         then (NO_SIGNAL, s1)
         else if f_le F (min_quality_for_bpm (cfg s1)) (quality r) \<and> stable r then
                (if fst (sustained s1 r) = AlarmType.NONE then
                   (if detect_rapid_change (snd (sustained s1 r)) then RAPID_CHANGE
                    else AlarmType.NONE, snd (sustained s1 r))
                 else (fst (sustained s1 r), snd (sustained s1 r)))
              else (AlarmType.NONE, s1\<lparr>abnormal_since_ms := 0, abnormal_kind := AlarmType.NONE\<rparr>))"
  unfolding classify_def Let_def by (simp only: case_prod_beta)

lemma classify_frame [simp]:
  "cfg (snd (classify F s r)) = cfg s" "active_alarm (snd (classify F s r)) = active_alarm s"
  "clear_since_ms (snd (classify F s r)) = clear_since_ms s"
  by (simp_all add: classify_unfold Let_def)

lemma clear_hysteresis_frame [simp]:
  "cfg (snd (clear_hysteresis s r c)) = cfg s"
  "active_alarm (snd (clear_hysteresis s r c)) = active_alarm s"
  by (simp_all add: clear_hysteresis_def Let_def)

lemma update_unfold:
  "HrAnomalyDetector_update F s r out =
     (let c0 = fst (classify F s r); s1 = snd (classify F s r);
          c = fst (clear_hysteresis s1 r c0); s2 = snd (clear_hysteresis s1 r c0)
      in if c \<noteq> active_alarm s then
           (True, s2\<lparr>active_alarm := c\<rparr>,
            \<lparr>ev_type = c, ev_bpm = bpm r, ev_quality = quality r, ev_t_ms = t_ms r\<rparr>)
         else (False, s2, out))"
  unfolding HrAnomalyDetector_update_def Let_def by (simp add: case_prod_beta)

lemma effective_candidate_unfold:
  "effective_candidate F s r = fst (clear_hysteresis (snd (classify F s r)) r (fst (classify F s r)))"
  by (simp add: effective_candidate_def case_prod_beta)

lemma update_active:
  "active_alarm (fst (snd (HrAnomalyDetector_update F s r out))) = effective_candidate F s r"
  by (simp add: update_unfold effective_candidate_unfold Let_def)

lemma update_cfg [simp]:
  "cfg (fst (snd (HrAnomalyDetector_update F s r out))) = cfg s"
  by (simp add: update_unfold Let_def)

lemma alarm_events_distinct_adj:
  "distinct_adj (active_alarm s # map ev_type (alarm_events F s rs))"
proof (induction rs arbitrary: s)
  case Nil
  then show ?case by simp
next
  case (Cons r rs)
  obtain changed s' out where up: "HrAnomalyDetector_update F s r (fresh_event F) = (changed, s', out)"
    by (cases "HrAnomalyDetector_update F s r (fresh_event F)") auto
  have act: "active_alarm s' = effective_candidate F s r"
    using update_active[of F s r "fresh_event F"] up by simp
  show ?case
  proof (cases changed)
    case True
    with up have "effective_candidate F s r \<noteq> active_alarm s" "ev_type out = effective_candidate F s r"
      by (auto simp: update_unfold effective_candidate_unfold Let_def split: if_splits)
    with Cons.IH[of s'] act True up show ?thesis by simp
  next
    case False
    with up have "effective_candidate F s r = active_alarm s"
      by (auto simp: update_unfold effective_candidate_unfold Let_def split: if_splits)
    with Cons.IH[of s'] act False up show ?thesis by simp
  qed
qed

text \<open>
  C2. A call of \<open>update\<close> returns true exactly when the candidate after the hysteresis
  differs from the stored active alarm. The active alarm afterwards is that candidate; a
  returned event carries it with the reading's bpm, quality and timestamp, and without an
  event \<open>out_event\<close> is untouched. Hence along any sequence of readings no published
  event has the type of the one before it, nor the first the type of the alarm active at
  the start.
\<close>

theorem C2_event_iff_candidate_differs:
  assumes "HrAnomalyDetector_update F s r out = (changed, s', out')"
  shows "(changed \<longleftrightarrow> effective_candidate F s r \<noteq> active_alarm s)
         \<and> active_alarm s' = effective_candidate F s r
         \<and> (if changed
             then out' = \<lparr>ev_type = effective_candidate F s r, ev_bpm = bpm r,
                           ev_quality = quality r, ev_t_ms = t_ms r\<rparr>
             else out' = out)
         \<and> distinct_adj (active_alarm s # map ev_type (alarm_events F s rs))"
proof -
  have "changed \<longleftrightarrow> effective_candidate F s r \<noteq> active_alarm s"
    using assms by (auto simp: update_unfold effective_candidate_unfold Let_def split: if_splits)
  moreover have "active_alarm s' = effective_candidate F s r"
    using update_active[of F s r out] assms by simp
  moreover have "if changed
             then out' = \<lparr>ev_type = effective_candidate F s r, ev_bpm = bpm r,
                           ev_quality = quality r, ev_t_ms = t_ms r\<rparr>
             else out' = out"
    using assms by (auto simp: update_unfold effective_candidate_unfold Let_def split: if_splits)
  ultimately show ?thesis using alarm_events_distinct_adj by blast
qed

lemma run_append:
  "HrAnomalyDetector_run F s (rs @ rs') = HrAnomalyDetector_run F (HrAnomalyDetector_run F s rs) rs'"
  by (induction rs arbitrary: s) simp_all

lemma alarm_events_append:
  "alarm_events F s (rs @ rs') = alarm_events F s rs @ alarm_events F (HrAnomalyDetector_run F s rs) rs'"
  by (induction rs arbitrary: s) (simp_all add: case_prod_beta)

lemma all_quiet_append:
  "all_quiet F s (rs @ rs') \<longleftrightarrow> all_quiet F s rs \<and> all_quiet F (HrAnomalyDetector_run F s rs) rs'"
  by (induction rs arbitrary: s) auto

lemma run_cfg [simp]: "cfg (HrAnomalyDetector_run F s rs) = cfg s"
  by (induction rs arbitrary: s) simp_all

text \<open>One tick with an active alarm and the candidate \<open>NONE\<close>.\<close>

lemma tick_hold:
  assumes "active_alarm s \<noteq> AlarmType.NONE" "fst (classify F s r) = AlarmType.NONE"
    and "t_ms r - (if clear_since_ms s = 0 then t_ms r else clear_since_ms s) < clear_ms (cfg s)"
  shows "HrAnomalyDetector_update F s r out
           = (False, (snd (classify F s r))
                \<lparr>clear_since_ms := (if clear_since_ms s = 0 then t_ms r else clear_since_ms s)\<rparr>, out)"
  using assms by (cases "clear_since_ms s = 0") (simp_all add: update_unfold clear_hysteresis_def Let_def)

lemma tick_clear:
  assumes "active_alarm s \<noteq> AlarmType.NONE" "fst (classify F s r) = AlarmType.NONE"
    and "\<not> t_ms r - (if clear_since_ms s = 0 then t_ms r else clear_since_ms s) < clear_ms (cfg s)"
  shows "HrAnomalyDetector_update F s r out
           = (True, (snd (classify F s r))\<lparr>clear_since_ms := 0, active_alarm := AlarmType.NONE\<rparr>,
              \<lparr>ev_type = AlarmType.NONE, ev_bpm = bpm r, ev_quality = quality r, ev_t_ms = t_ms r\<rparr>)"
  using assms by (cases "clear_since_ms s = 0") (simp_all add: update_unfold clear_hysteresis_def Let_def)

lemma tick_alarm:
  assumes "fst (classify F s r) \<noteq> AlarmType.NONE"
  shows "active_alarm (fst (snd (HrAnomalyDetector_update F s r out))) = fst (classify F s r)"
    and "clear_since_ms (fst (snd (HrAnomalyDetector_update F s r out))) = 0"
  using assms by (simp_all add: update_unfold clear_hysteresis_def Let_def)

lemma streak_held:
  assumes "active_alarm s \<noteq> AlarmType.NONE" "clear_since_ms s = t1" "t1 \<noteq> 0"
    and "all_quiet F s rs" "\<forall>x\<in>set rs. t_ms x - t1 < clear_ms (cfg s)"
  shows "alarm_events F s rs = []
         \<and> active_alarm (HrAnomalyDetector_run F s rs) = active_alarm s
         \<and> clear_since_ms (HrAnomalyDetector_run F s rs) = t1"
  using assms
proof (induction rs arbitrary: s)
  case Nil
  then show ?case by simp
next
  case (Cons r rs)
  let ?s' = "(snd (classify F s r))\<lparr>clear_since_ms := t1\<rparr>"
  have q: "fst (classify F s r) = AlarmType.NONE" using Cons.prems(4) by simp
  have h: "t_ms r - (if clear_since_ms s = 0 then t_ms r else clear_since_ms s) < clear_ms (cfg s)"
    using Cons.prems(2,3,5) by simp
  have up: "HrAnomalyDetector_update F s r (fresh_event F) = (False, ?s', fresh_event F)"
    using tick_hold[OF Cons.prems(1) q h] Cons.prems(2,3) by simp
  have "alarm_events F ?s' rs = []
         \<and> active_alarm (HrAnomalyDetector_run F ?s' rs) = active_alarm ?s'
         \<and> clear_since_ms (HrAnomalyDetector_run F ?s' rs) = t1"
    using Cons.prems up by (intro Cons.IH) simp_all
  then show ?case by (simp add: up)
qed

text \<open>
  A streak of \<open>NONE\<close> candidates after an alarm tick, in any detector state: if the
  streak starts at a timestamp other than 0 (\<open>clear_since_ms_ = 0\<close> is the value for
  "not pending"), the alarm is held while less than 3000 ms have passed since the start
  of the streak, and cleared by the first tick 3000 ms or more after it.
\<close>

lemma clear_streak:
  assumes alarm: "fst (classify F s0 r0) \<noteq> AlarmType.NONE"
    and cfg: "clear_ms (cfg s0) = 3000"
    and nz: "t_ms r1 \<noteq> 0"
    and quiet: "all_quiet F (HrAnomalyDetector_run F s0 [r0]) (r1 # rs @ [r])"
    and early: "\<forall>x\<in>set rs. t_ms x - t_ms r1 < 3000"
  shows "alarm_events F (HrAnomalyDetector_run F s0 [r0]) (r1 # rs) = []
         \<and> active_alarm (HrAnomalyDetector_run F s0 (r0 # r1 # rs)) = fst (classify F s0 r0)
         \<and> (if t_ms r - t_ms r1 < 3000
             then alarm_events F (HrAnomalyDetector_run F s0 [r0]) (r1 # rs @ [r]) = []
                  \<and> active_alarm (HrAnomalyDetector_run F s0 (r0 # r1 # rs @ [r]))
                      = fst (classify F s0 r0)
             else alarm_events F (HrAnomalyDetector_run F s0 [r0]) (r1 # rs @ [r])
                    = [\<lparr>ev_type = AlarmType.NONE, ev_bpm = bpm r, ev_quality = quality r,
                        ev_t_ms = t_ms r\<rparr>]
                  \<and> active_alarm (HrAnomalyDetector_run F s0 (r0 # r1 # rs @ [r]))
                      = AlarmType.NONE)"
proof -
  let ?A = "fst (classify F s0 r0)"
  let ?s = "HrAnomalyDetector_run F s0 [r0]"
  have sA: "active_alarm ?s = ?A" and sC: "clear_since_ms ?s = 0" and scfg: "clear_ms (cfg ?s) = 3000"
    using tick_alarm[OF alarm, of "fresh_event F"] cfg by simp_all
  have act: "active_alarm ?s \<noteq> AlarmType.NONE" using sA alarm by simp
  have q1: "fst (classify F ?s r1) = AlarmType.NONE" using quiet by simp
  let ?s1 = "(snd (classify F ?s r1))\<lparr>clear_since_ms := t_ms r1\<rparr>"
  have up1: "HrAnomalyDetector_update F ?s r1 (fresh_event F) = (False, ?s1, fresh_event F)"
    using tick_hold[OF act q1, of "fresh_event F"] sC scfg by simp
  have run1: "HrAnomalyDetector_run F ?s (r1 # xs) = HrAnomalyDetector_run F ?s1 xs" for xs
    using up1 by simp
  have ev1: "alarm_events F ?s (r1 # xs) = alarm_events F ?s1 xs" for xs
    using up1 by simp
  have a1: "active_alarm ?s1 = ?A" "clear_since_ms ?s1 = t_ms r1" "clear_ms (cfg ?s1) = 3000"
    using sA scfg by simp_all
  have act1: "active_alarm ?s1 \<noteq> AlarmType.NONE" using a1 alarm by simp
  have qrest: "all_quiet F ?s1 (rs @ [r])" using quiet up1 by simp
  then have qrs: "all_quiet F ?s1 rs"
    and qr: "fst (classify F (HrAnomalyDetector_run F ?s1 rs) r) = AlarmType.NONE"
    by (simp_all add: all_quiet_append)
  have early1: "\<forall>x\<in>set rs. t_ms x - t_ms r1 < clear_ms (cfg ?s1)"
    using early a1(3) by simp
  from streak_held[OF act1 a1(2) nz qrs early1]
  have held: "alarm_events F ?s1 rs = []"
    "active_alarm (HrAnomalyDetector_run F ?s1 rs) = ?A"
    "clear_since_ms (HrAnomalyDetector_run F ?s1 rs) = t_ms r1"
    using a1(1) by simp_all
  let ?s2 = "HrAnomalyDetector_run F ?s1 rs"
  have act2: "active_alarm ?s2 \<noteq> AlarmType.NONE" using held(2) alarm by simp
  have cfg2: "clear_ms (cfg ?s2) = 3000" using a1(3) by simp
  have runs: "HrAnomalyDetector_run F s0 (r0 # r1 # xs) = HrAnomalyDetector_run F ?s1 xs" for xs
    using run1[of xs] by simp
  have part1: "alarm_events F ?s (r1 # rs) = []"
    "active_alarm (HrAnomalyDetector_run F s0 (r0 # r1 # rs)) = ?A"
    using held(1,2) by (simp_all only: ev1 runs)
  have last_ev: "alarm_events F ?s (r1 # rs @ [r]) = alarm_events F ?s2 [r]"
    by (simp only: ev1 alarm_events_append held(1) append_Nil)
  have last_run: "HrAnomalyDetector_run F s0 (r0 # r1 # rs @ [r]) = HrAnomalyDetector_run F ?s2 [r]"
    by (simp only: runs run_append)
  show ?thesis
  proof (cases "t_ms r - t_ms r1 < 3000")
    case True
    then have h: "t_ms r - (if clear_since_ms ?s2 = 0 then t_ms r else clear_since_ms ?s2)
                   < clear_ms (cfg ?s2)"
      using held(3) nz cfg2 by simp
    from tick_hold[OF act2 qr h, of "fresh_event F"]
    have "alarm_events F ?s2 [r] = []"
      "active_alarm (HrAnomalyDetector_run F ?s2 [r]) = ?A"
      using held(2) by simp_all
    with part1 True show ?thesis by (simp only: last_ev last_run if_True simp_thms)
  next
    case False
    then have h: "\<not> t_ms r - (if clear_since_ms ?s2 = 0 then t_ms r else clear_since_ms ?s2)
                   < clear_ms (cfg ?s2)"
      using held(3) nz cfg2 by simp
    from tick_clear[OF act2 qr h, of "fresh_event F"]
    have "alarm_events F ?s2 [r]
            = [\<lparr>ev_type = AlarmType.NONE, ev_bpm = bpm r, ev_quality = quality r, ev_t_ms = t_ms r\<rparr>]"
      "active_alarm (HrAnomalyDetector_run F ?s2 [r]) = AlarmType.NONE"
      by simp_all
    with part1 False show ?thesis by (simp only: last_ev last_run if_False simp_thms)
  qed
qed

lemma clear_hysteresis_no_signal [simp]:
  "no_signal_since_ms (snd (clear_hysteresis s r c)) = no_signal_since_ms s"
  by (simp add: clear_hysteresis_def Let_def)

lemma classify_no_signal [simp]:
  "no_signal_since_ms (snd (classify F s r)) = no_signal_since_ms (track_no_signal F s r)"
  by (simp add: classify_unfold Let_def)

lemma update_no_signal:
  "no_signal_since_ms (fst (snd (HrAnomalyDetector_update F s r out)))
     = no_signal_since_ms (track_no_signal F s r)"
  by (simp add: update_unfold Let_def)

lemma track_low:
  assumes "f_lt F (quality r) (min_quality_for_bpm (cfg s)) \<or> bpm r \<le> 0"
  shows "no_signal_since_ms (track_no_signal F s r)
           = (if no_signal_since_ms s = 0 then t_ms r else no_signal_since_ms s)"
  using assms by (auto simp: track_no_signal_def Let_def)

lemma low_streak_onset:
  assumes "no_signal_since_ms s = t1" "t1 \<noteq> 0"
    and "\<forall>x\<in>set rs. f_lt F (quality x) (min_quality_for_bpm (cfg s)) \<or> bpm x \<le> 0"
  shows "no_signal_since_ms (HrAnomalyDetector_run F s rs) = t1"
  using assms
proof (induction rs arbitrary: s)
  case Nil
  then show ?case by simp
next
  case (Cons r rs)
  let ?s' = "fst (snd (HrAnomalyDetector_update F s r (fresh_event F)))"
  have "no_signal_since_ms ?s' = t1"
    using Cons.prems by (simp add: update_no_signal track_low)
  moreover have "\<forall>x\<in>set rs. f_lt F (quality x) (min_quality_for_bpm (cfg ?s')) \<or> bpm x \<le> 0"
    using Cons.prems(3) by simp
  ultimately have "no_signal_since_ms (HrAnomalyDetector_run F ?s' rs) = t1"
    using Cons.prems(2) by (intro Cons.IH)
  then show ?case by simp
qed

lemma low_long_is_NO_SIGNAL:
  assumes "no_signal_since_ms s = t1" "t1 \<noteq> 0"
    and "f_lt F (quality r) (min_quality_for_bpm (cfg s)) \<or> bpm r \<le> 0"
    and "no_signal_ms (cfg s) \<le> t_ms r - t1"
  shows "fst (classify F s r) = NO_SIGNAL"
    and "active_alarm (fst (snd (HrAnomalyDetector_update F s r out))) = NO_SIGNAL"
proof -
  have "no_signal_since_ms (track_no_signal F s r) = t1"
    using assms(1-3) by (simp add: track_low)
  then show c: "fst (classify F s r) = NO_SIGNAL"
    using assms(2,4) by (simp add: classify_unfold Let_def)
  then show "active_alarm (fst (snd (HrAnomalyDetector_update F s r out))) = NO_SIGNAL"
    by (simp add: update_active effective_candidate_unfold clear_hysteresis_def)
qed

text \<open>A reading of low quality or without a pulse never yields a sustained candidate.\<close>

lemma low_candidate:
  assumes ord: "\<forall>a b. f_lt F a b \<longrightarrow> \<not> f_le F b a"
    and low: "f_lt F (quality r) (min_quality_for_bpm (cfg s)) \<or> bpm r \<le> 0"
    and tachy: "0 \<le> tachy_bpm (cfg s)"
  shows "fst (classify F s r) \<noteq> TACHYCARDIA \<and> fst (classify F s r) \<noteq> BRADYCARDIA"
proof (cases "f_lt F (quality r) (min_quality_for_bpm (cfg s))")
  case True
  then have "\<not> f_le F (min_quality_for_bpm (cfg s)) (quality r)" using ord by blast
  then show ?thesis by (simp add: classify_unfold Let_def)
next
  case False
  with low have b: "bpm r \<le> 0" by simp
  let ?s1 = "push_hist (track_no_signal F s r) r"
  have "fst (sustained ?s1 r) = AlarmType.NONE"
    using b tachy by (simp add: sustained_def)
  then show ?thesis by (simp add: classify_unfold Let_def)
qed

lemma low_event_type:
  assumes ord: "\<forall>a b. f_lt F a b \<longrightarrow> \<not> f_le F b a"
    and low: "f_lt F (quality r) (min_quality_for_bpm (cfg s)) \<or> bpm r \<le> 0"
    and tachy: "0 \<le> tachy_bpm (cfg s)"
    and up: "HrAnomalyDetector_update F s r out = (True, s', out')"
  shows "ev_type out' \<noteq> TACHYCARDIA \<and> ev_type out' \<noteq> BRADYCARDIA"
proof -
  let ?raw = "fst (classify F s r)"
  let ?eff = "effective_candidate F s r"
  from up have ne: "?eff \<noteq> active_alarm s" and ty: "ev_type out' = ?eff"
    by (auto simp: update_unfold effective_candidate_unfold Let_def split: if_splits)
  have "?eff = ?raw \<or> ?eff = active_alarm s"
    by (simp add: effective_candidate_unfold clear_hysteresis_def Let_def)
  with ne have eq: "?eff = ?raw" by blast
  have "?raw \<noteq> TACHYCARDIA \<and> ?raw \<noteq> BRADYCARDIA" by (rule low_candidate[OF ord low tachy])
  then show ?thesis unfolding ty eq .
qed

lemma low_run_events:
  assumes ord: "\<forall>a b. f_lt F a b \<longrightarrow> \<not> f_le F b a"
    and tachy: "0 \<le> tachy_bpm (cfg s)"
    and low: "\<forall>x\<in>set rs. f_lt F (quality x) (min_quality_for_bpm (cfg s)) \<or> bpm x \<le> 0"
  shows "\<forall>e\<in>set (alarm_events F s rs). ev_type e \<noteq> TACHYCARDIA \<and> ev_type e \<noteq> BRADYCARDIA"
  using tachy low
proof (induction rs arbitrary: s)
  case Nil
  then show ?case by simp
next
  case (Cons r rs)
  obtain changed s' out where up: "HrAnomalyDetector_update F s r (fresh_event F) = (changed, s', out)"
    by (cases "HrAnomalyDetector_update F s r (fresh_event F)") auto
  have c': "cfg s' = cfg s" using update_cfg[of F s r "fresh_event F"] up by simp
  have rest: "\<forall>e\<in>set (alarm_events F s' rs). ev_type e \<noteq> TACHYCARDIA \<and> ev_type e \<noteq> BRADYCARDIA"
    using Cons.prems by (intro Cons.IH) (simp_all add: c')
  have lowr: "f_lt F (quality r) (min_quality_for_bpm (cfg s)) \<or> bpm r \<le> 0"
    using Cons.prems(2) by simp
  show ?case
  proof (cases changed)
    case True
    with low_event_type[OF ord lowr Cons.prems(1)] up
    have "ev_type out \<noteq> TACHYCARDIA \<and> ev_type out \<noteq> BRADYCARDIA" by simp
    with rest True up show ?thesis by simp
  next
    case False
    with rest up show ?thesis by simp
  qed
qed


lemma loop_iff:
  assumes "0 \<le> rapid_change_window_ms (cfg s)"
  shows "detect_rapid_change_loop s newest i \<longleftrightarrow>
     (\<exists>k. i \<le> k \<and> k < hist_count s
        \<and> 0 < hist_t_ms newest - hist_t_ms (hist s ! nat ((hist_wr s + HIST_N - 1 - k) smod HIST_N))
        \<and> hist_t_ms newest - hist_t_ms (hist s ! nat ((hist_wr s + HIST_N - 1 - k) smod HIST_N))
            \<le> rapid_change_window_ms (cfg s)
        \<and> rapid_change_delta_bpm (cfg s)
            \<le> narrow_int32 \<bar>narrow_int32
                  (hist_bpm newest - hist_bpm (hist s ! nat ((hist_wr s + HIST_N - 1 - k) smod HIST_N)))\<bar>
        \<and> (\<forall>j. i \<le> j \<and> j < k \<longrightarrow>
              hist_t_ms newest - hist_t_ms (hist s ! nat ((hist_wr s + HIST_N - 1 - j) smod HIST_N))
                \<le> rapid_change_window_ms (cfg s)))"
  using assms
proof (induction s newest i rule: detect_rapid_change_loop.induct)
  case (1 s newest i)
  let ?dt = "\<lambda>k. hist_t_ms newest - hist_t_ms (hist s ! nat ((hist_wr s + HIST_N - 1 - k) smod HIST_N))"
  let ?db = "\<lambda>k. narrow_int32 \<bar>narrow_int32
                  (hist_bpm newest - hist_bpm (hist s ! nat ((hist_wr s + HIST_N - 1 - k) smod HIST_N)))\<bar>"
  let ?W = "rapid_change_window_ms (cfg s)"
  let ?D = "rapid_change_delta_bpm (cfg s)"
  let ?Q = "\<lambda>i k. i \<le> k \<and> k < hist_count s \<and> 0 < ?dt k \<and> ?dt k \<le> ?W \<and> ?D \<le> ?db k
                    \<and> (\<forall>j. i \<le> j \<and> j < k \<longrightarrow> ?dt j \<le> ?W)"
  have shift: "(\<exists>k. ?Q i k) \<longleftrightarrow> (\<exists>k. ?Q (i + 1) k)"
    if a: "i < hist_count s" and b: "?dt i \<le> ?W" and c: "\<not> (0 < ?dt i \<and> ?D \<le> ?db i)"
  proof
    assume "\<exists>k. ?Q i k"
    then obtain k where k: "?Q i k" ..
    with c have "k \<noteq> i" by auto
    with k have "i + 1 \<le> k" by simp
    with k have "?Q (i + 1) k" by simp
    then show "\<exists>k. ?Q (i + 1) k" ..
  next
    assume "\<exists>k. ?Q (i + 1) k"
    then obtain k where k: "?Q (i + 1) k" ..
    have "?dt j \<le> ?W" if "i \<le> j \<and> j < k" for j
    proof (cases "j = i")
      case True
      with b show ?thesis by simp
    next
      case False
      with that have "i + 1 \<le> j \<and> j < k" by simp
      with k show ?thesis by blast
    qed
    with k have "?Q i k" by simp
    then show "\<exists>k. ?Q i k" ..
  qed
  show ?case
  proof (cases "i < hist_count s")
    case False
    then have "\<not> detect_rapid_change_loop s newest i"
      by (subst detect_rapid_change_loop.simps) simp
    moreover have "\<not> (\<exists>k. ?Q i k)" using False by auto
    ultimately show ?thesis by blast
  next
    case lt: True
    show ?thesis
    proof (cases "?dt i \<le> 0")
      case True
      then have "detect_rapid_change_loop s newest i = detect_rapid_change_loop s newest (i + 1)"
        using lt by (subst detect_rapid_change_loop.simps) simp
      also have "\<dots> \<longleftrightarrow> (\<exists>k. ?Q (i + 1) k)"
        using "1.IH"(1)[OF lt True "1.prems"] .
      also have "\<dots> \<longleftrightarrow> (\<exists>k. ?Q i k)"
        using shift[OF lt] True "1.prems" by simp
      finally show ?thesis .
    next
      case pos: False
      show ?thesis
      proof (cases "?dt i > ?W")
        case True
        then have "\<not> detect_rapid_change_loop s newest i"
          using lt pos by (subst detect_rapid_change_loop.simps) simp
        moreover have "\<not> (\<exists>k. ?Q i k)"
        proof
          assume "\<exists>k. ?Q i k"
          then obtain k where k: "?Q i k" ..
          show False
          proof (cases "k = i")
            case True
            with k \<open>?dt i > ?W\<close> show False by simp
          next
            case False
            with k have "i \<le> i \<and> i < k" by simp
            with k have "?dt i \<le> ?W" by blast
            with \<open>?dt i > ?W\<close> show False by simp
          qed
        qed
        ultimately show ?thesis by blast
      next
        case inwin: False
        show ?thesis
        proof (cases "?db i \<ge> ?D")
          case True
          then have "detect_rapid_change_loop s newest i"
            using lt pos inwin by (subst detect_rapid_change_loop.simps) simp
          moreover have "?Q i i" using lt pos inwin True by simp
          ultimately show ?thesis by blast
        next
          case False
          then have "detect_rapid_change_loop s newest i = detect_rapid_change_loop s newest (i + 1)"
            using lt pos inwin by (subst detect_rapid_change_loop.simps) simp
          also have "\<dots> \<longleftrightarrow> (\<exists>k. ?Q (i + 1) k)"
            using "1.IH"(2)[OF lt pos inwin False "1.prems"] .
          also have "\<dots> \<longleftrightarrow> (\<exists>k. ?Q i k)"
            using shift[OF lt] inwin False by simp
          finally show ?thesis .
        qed
      qed
    qed
  qed
qed

lemma smod8: "0 \<le> x \<Longrightarrow> x smod 8 = x mod (8::int)"
  by (simp add: signed_modulo_int_def sgn_if)

lemma history_length [simp]: "length (history s) = nat (hist_count s)"
  by (simp add: history_def)

lemma history_nth:
  "i < nat (hist_count s) \<Longrightarrow>
     history s ! i = hist s ! nat ((hist_wr s + HIST_N - 1 - int i) smod HIST_N)"
  by (simp add: history_def)

lemma history_cong:
  "hist s' = hist s \<Longrightarrow> hist_wr s' = hist_wr s \<Longrightarrow> hist_count s' = hist_count s
     \<Longrightarrow> history s' = history s"
  by (simp add: history_def)

lemma slot_distinct:
  assumes "0 \<le> w" "w < 8" "1 \<le> i" "i \<le> (7::int)"
  shows "(w + 8 - i) mod 8 \<noteq> w"
proof
  assume "(w + 8 - i) mod 8 = w"
  then have "(w + 8 - i) mod 8 = w mod 8" using assms by simp
  then have "8 dvd (w + 8 - i) - w" by (simp add: mod_eq_dvd_iff)
  then have "8 dvd 8 - i" by simp
  then have "8 \<le> 8 - i" using assms by (intro zdvd_imp_le) simp_all
  with assms show False by simp
qed

lemma history_push:
  assumes ok: "hist_ok s"
  shows "history (push_hist s r) = take 8 (hist_of r # history s)"
    and "hist_ok (push_hist s r)"
proof -
  let ?w = "hist_wr s" and ?c = "hist_count s"
  let ?s' = "push_hist s r"
  from ok have len: "length (hist s) = 8" and w: "0 \<le> ?w" "?w < 8" and c: "0 \<le> ?c" "?c \<le> 8"
    by (simp_all add: hist_ok_def)
  have h': "hist ?s' = (hist s)[nat ?w := hist_of r]"
    and w': "hist_wr ?s' = (?w + 1) mod 8"
    and c': "hist_count ?s' = (if ?c < 8 then ?c + 1 else ?c)"
    using w by (simp_all add: push_hist_def hist_of_def HIST_N_def smod8)
  show "hist_ok ?s'"
    using len w c by (simp add: hist_ok_def h' w' c')
  have idx': "nat ((hist_wr ?s' + HIST_N - 1 - int i) smod HIST_N) = nat ((?w + 8 - int i) mod 8)"
    if "i < 8" for i
  proof -
    have e: "hist_wr ?s' + 8 - 1 - int i = (?w + 1) mod 8 + (7 - int i)"
      by (simp add: w')
    have "0 \<le> (?w + 1) mod 8 + (7 - int i)" using that by simp
    then have "((?w + 1) mod 8 + (7 - int i)) smod 8 = ((?w + 1) mod 8 + (7 - int i)) mod 8"
      by (rule smod8)
    then have "(hist_wr ?s' + HIST_N - 1 - int i) smod HIST_N = ((?w + 1) mod 8 + (7 - int i)) mod 8"
      unfolding HIST_N_def e .
    also have "\<dots> = ((?w + 1) + (7 - int i)) mod 8" by (rule mod_add_left_eq)
    also have "\<dots> = (?w + 8 - int i) mod 8" by (simp add: algebra_simps)
    finally show ?thesis by simp
  qed
  have idx: "nat ((?w + HIST_N - 1 - int i) smod HIST_N) = nat ((?w + 7 - int i) mod 8)"
    if "i < 8" for i
  proof -
    have e: "?w + 8 - 1 - int i = ?w + 7 - int i" by simp
    have "0 \<le> ?w + 7 - int i" using that w by simp
    then have "(?w + 7 - int i) smod 8 = (?w + 7 - int i) mod 8" by (rule smod8)
    then show ?thesis unfolding HIST_N_def e by simp
  qed
  show "history ?s' = take 8 (hist_of r # history s)"
  proof (rule nth_equalityI)
    show "length (history ?s') = length (take 8 (hist_of r # history s))"
      using c by (simp add: c' nat_add_distrib)
  next
    fix i assume "i < length (history ?s')"
    then have i: "i < nat (hist_count ?s')" by simp
    then have i8: "i < 8" using c by (simp add: c' split: if_splits)
    show "history ?s' ! i = take 8 (hist_of r # history s) ! i"
    proof (cases i)
      case 0
      have "history ?s' ! 0 = hist ?s' ! nat ((?w + 8) mod 8)"
        using history_nth[OF i] idx'[OF i8] 0 by simp
      also have "\<dots> = hist_of r" using w len by (simp add: h')
      finally show ?thesis using 0 by simp
    next
      case (Suc n)
      have n: "n < nat ?c" using i Suc c by (simp add: c' split: if_splits)
      have n8: "n < 8" using i8 Suc by simp
      have "(?w + 8 - int i) mod 8 \<noteq> ?w"
        using slot_distinct[OF w, of "int i"] i8 Suc by simp
      then have ne: "nat ((?w + 8 - int i) mod 8) \<noteq> nat ?w" using w by simp
      have "history ?s' ! i = hist ?s' ! nat ((?w + 8 - int i) mod 8)"
        using history_nth[OF i] idx'[OF i8] by simp
      also have "\<dots> = hist s ! nat ((?w + 8 - int i) mod 8)"
        using ne by (simp add: h')
      also have "(?w + 8 - int i) = (?w + 7 - int n)" using Suc by simp
      also have "hist s ! nat ((?w + 7 - int n) mod 8) = history s ! n"
        using history_nth[OF n] idx[OF n8] by simp
      finally show ?thesis using Suc i8 by simp
    qed
  qed
qed

lemma detect_history:
  assumes W: "0 \<le> rapid_change_window_ms (cfg s)"
  shows "detect_rapid_change s \<longleftrightarrow>
     (\<exists>k. 1 \<le> k \<and> k < length (history s)
        \<and> 0 < hist_t_ms (history s ! 0) - hist_t_ms (history s ! k)
        \<and> hist_t_ms (history s ! 0) - hist_t_ms (history s ! k) \<le> rapid_change_window_ms (cfg s)
        \<and> rapid_change_delta_bpm (cfg s)
            \<le> narrow_int32 \<bar>narrow_int32 (hist_bpm (history s ! 0) - hist_bpm (history s ! k))\<bar>
        \<and> (\<forall>j. 1 \<le> j \<and> j < k \<longrightarrow>
              hist_t_ms (history s ! 0) - hist_t_ms (history s ! j) \<le> rapid_change_window_ms (cfg s)))"
    (is "_ \<longleftrightarrow> ?R")
proof (cases "hist_count s < 2")
  case True
  then have "\<not> detect_rapid_change s" by (simp add: detect_rapid_change_def)
  moreover have "\<not> ?R" using True by auto
  ultimately show ?thesis by blast
next
  case False
  let ?E = "\<lambda>k. hist s ! nat ((hist_wr s + HIST_N - 1 - k) smod HIST_N)"
  let ?n = "?E 0"
  let ?W = "rapid_change_window_ms (cfg s)"
  let ?D = "rapid_change_delta_bpm (cfg s)"
  have E: "history s ! m = ?E (int m)" if "m < nat (hist_count s)" for m
    using history_nth[OF that] .
  have n0: "history s ! 0 = ?n" using E[of 0] False by simp
  have det: "detect_rapid_change s = detect_rapid_change_loop s ?n 1"
    using False by (simp add: detect_rapid_change_def Let_def)
  note li = loop_iff[OF W, of ?n 1]
  show ?thesis
  proof
    assume "detect_rapid_change s"
    then obtain k where k: "1 \<le> k" "k < hist_count s"
        "0 < hist_t_ms ?n - hist_t_ms (?E k)" "hist_t_ms ?n - hist_t_ms (?E k) \<le> ?W"
        "?D \<le> narrow_int32 \<bar>narrow_int32 (hist_bpm ?n - hist_bpm (?E k))\<bar>"
        "\<forall>j. 1 \<le> j \<and> j < k \<longrightarrow> hist_t_ms ?n - hist_t_ms (?E j) \<le> ?W"
      unfolding det li by blast
    let ?m = "nat k"
    have m: "1 \<le> ?m" "?m < length (history s)" "int ?m = k" using k(1,2) by simp_all
    have Em: "history s ! ?m = ?E k" using E[of ?m] m by simp
    have "hist_t_ms (history s ! 0) - hist_t_ms (history s ! j) \<le> ?W" if "1 \<le> j \<and> j < ?m" for j
    proof -
      have "nat k < nat (hist_count s)" using k(1,2) by (simp add: nat_mono_iff)
      with that have "j < nat (hist_count s)" by linarith
      then have "history s ! j = ?E (int j)" by (rule E)
      moreover have "1 \<le> int j \<and> int j < k" using that by linarith
      ultimately show ?thesis using k(6) n0 by simp
    qed
    with m k(3,4,5) Em n0 show ?R by (intro exI[of _ ?m]) simp
  next
    assume ?R
    then obtain m where m: "1 \<le> m" "m < length (history s)"
        "0 < hist_t_ms (history s ! 0) - hist_t_ms (history s ! m)"
        "hist_t_ms (history s ! 0) - hist_t_ms (history s ! m) \<le> ?W"
        "?D \<le> narrow_int32 \<bar>narrow_int32 (hist_bpm (history s ! 0) - hist_bpm (history s ! m))\<bar>"
        "\<forall>j. 1 \<le> j \<and> j < m \<longrightarrow> hist_t_ms (history s ! 0) - hist_t_ms (history s ! j) \<le> ?W"
      by blast
    have Em: "history s ! m = ?E (int m)" using E[of m] m(2) by simp
    have "hist_t_ms ?n - hist_t_ms (?E j) \<le> ?W" if "1 \<le> j \<and> j < int m" for j
    proof -
      have "int m < hist_count s" using m(2) by simp
      with that have "nat j < nat (hist_count s)" by (simp add: nat_mono_iff)
      then have "history s ! nat j = ?E (int (nat j))" by (rule E)
      moreover have "int (nat j) = j" using that by simp
      moreover have "1 \<le> nat j \<and> nat j < m" using that by linarith
      ultimately show ?thesis using m(6) n0 by (metis (no_types, lifting))
    qed
    moreover have "1 \<le> int m" "int m < hist_count s" using m(1,2) by simp_all
    ultimately have "\<exists>k. 1 \<le> k \<and> k < hist_count s
        \<and> 0 < hist_t_ms ?n - hist_t_ms (?E k) \<and> hist_t_ms ?n - hist_t_ms (?E k) \<le> ?W
        \<and> ?D \<le> narrow_int32 \<bar>narrow_int32 (hist_bpm ?n - hist_bpm (?E k))\<bar>
        \<and> (\<forall>j. 1 \<le> j \<and> j < k \<longrightarrow> hist_t_ms ?n - hist_t_ms (?E j) \<le> ?W)"
      using m(3,4,5) Em n0 by (intro exI[of _ "int m"]) simp
    then show "detect_rapid_change s" unfolding det li .
  qed
qed

lemma hist_ok_init: "hist_ok (HrAnomalyDetector_init c)" "history (HrAnomalyDetector_init c) = []"
  by (simp_all add: hist_ok_def history_def HrAnomalyDetector_init_def)

lemma classify_hist [simp]:
  "hist (snd (classify F s r)) = hist (push_hist s r)"
  "hist_wr (snd (classify F s r)) = hist_wr (push_hist s r)"
  "hist_count (snd (classify F s r)) = hist_count (push_hist s r)"
  by (simp_all add: classify_unfold Let_def) (simp_all add: push_hist_def)

lemma clear_hysteresis_hist [simp]:
  "hist (snd (clear_hysteresis s r c)) = hist s"
  "hist_wr (snd (clear_hysteresis s r c)) = hist_wr s"
  "hist_count (snd (clear_hysteresis s r c)) = hist_count s"
  by (simp_all add: clear_hysteresis_def Let_def)

lemma update_hist:
  "hist (fst (snd (HrAnomalyDetector_update F s r out))) = hist (push_hist s r)"
  "hist_wr (fst (snd (HrAnomalyDetector_update F s r out))) = hist_wr (push_hist s r)"
  "hist_count (fst (snd (HrAnomalyDetector_update F s r out))) = hist_count (push_hist s r)"
  by (simp_all add: update_unfold Let_def)

lemma update_history:
  assumes "hist_ok s"
  shows "history (fst (snd (HrAnomalyDetector_update F s r out))) = take 8 (hist_of r # history s)"
    and "hist_ok (fst (snd (HrAnomalyDetector_update F s r out)))"
proof -
  have "history (fst (snd (HrAnomalyDetector_update F s r out))) = history (push_hist s r)"
    by (rule history_cong) (simp_all add: update_hist)
  then show "history (fst (snd (HrAnomalyDetector_update F s r out))) = take 8 (hist_of r # history s)"
    using history_push(1)[OF assms] by simp
  show "hist_ok (fst (snd (HrAnomalyDetector_update F s r out)))"
    using history_push(2)[OF assms, of r] by (simp add: hist_ok_def update_hist)
qed

lemma take_append_take: "take n (xs @ take n ys) = take n (xs @ ys)"
  by (simp add: min_def)

lemma run_history:
  assumes "hist_ok s"
  shows "hist_ok (HrAnomalyDetector_run F s rs)
         \<and> history (HrAnomalyDetector_run F s rs) = take 8 (rev (map hist_of rs) @ history s)"
  using assms
proof (induction rs arbitrary: s)
  case Nil
  then have "hist_count s \<le> 8" by (simp add: hist_ok_def)
  then have "length (history s) \<le> 8" by simp
  with Nil show ?case by simp
next
  case (Cons r rs)
  let ?s' = "fst (snd (HrAnomalyDetector_update F s r (fresh_event F)))"
  note u = update_history[OF Cons.prems, of F r "fresh_event F"]
  from Cons.IH[OF u(2)] have ok: "hist_ok (HrAnomalyDetector_run F ?s' rs)"
    and h: "history (HrAnomalyDetector_run F ?s' rs) = take 8 (rev (map hist_of rs) @ history ?s')"
    by blast+
  have "take 8 (rev (map hist_of rs) @ history ?s')
          = take 8 (rev (map hist_of rs) @ (hist_of r # history s))"
    unfolding u(1) by (rule take_append_take)
  with ok h show ?case by simp
qed

lemma reachable_history:
  "history (HrAnomalyDetector_run F (HrAnomalyDetector_init c) prev) = take 8 (rev (map hist_of prev))"
  "hist_ok (HrAnomalyDetector_run F (HrAnomalyDetector_init c) prev)"
  using run_history[OF hist_ok_init(1), of F c prev] by (simp_all add: hist_ok_init(2))

lemma sustained_pre [simp]:
  "fst (sustained (push_hist (track_no_signal F s r) r) r) = fst (sustained s r)"
  by (simp add: sustained_def Let_def)

lemma HrAnomalyDetector_init_cfg [simp]: "cfg (HrAnomalyDetector_init c) = c"
  by (simp add: HrAnomalyDetector_init_def)

lemma loop_pos:
  "detect_rapid_change_loop s newest i \<Longrightarrow>
     \<exists>k. i \<le> k \<and> k < hist_count s
        \<and> 0 < hist_t_ms newest - hist_t_ms (hist s ! nat ((hist_wr s + HIST_N - 1 - k) smod HIST_N))"
proof (induction s newest i rule: detect_rapid_change_loop.induct)
  case (1 s newest i)
  let ?dt = "\<lambda>k. hist_t_ms newest - hist_t_ms (hist s ! nat ((hist_wr s + HIST_N - 1 - k) smod HIST_N))"
  let ?db = "\<lambda>k. narrow_int32 \<bar>narrow_int32
                  (hist_bpm newest - hist_bpm (hist s ! nat ((hist_wr s + HIST_N - 1 - k) smod HIST_N)))\<bar>"
  have lt: "i < hist_count s"
    using "1.prems" by (subst (asm) detect_rapid_change_loop.simps) (simp split: if_splits)
  show ?case
  proof (cases "?dt i \<le> 0")
    case True
    have "detect_rapid_change_loop s newest (i + 1)"
      using "1.prems" lt True by (subst (asm) detect_rapid_change_loop.simps) simp
    from "1.IH"(1)[OF lt True this] obtain k where "i + 1 \<le> k" "k < hist_count s" "0 < ?dt k"
      by blast
    then show ?thesis by (intro exI[of _ k]) simp
  next
    case pos: False
    show ?thesis
    proof (cases "?dt i > rapid_change_window_ms (cfg s)")
      case True
      then have "\<not> detect_rapid_change_loop s newest i"
        using lt pos by (subst detect_rapid_change_loop.simps) simp
      with "1.prems" show ?thesis by simp
    next
      case inwin: False
      show ?thesis
      proof (cases "?db i \<ge> rapid_change_delta_bpm (cfg s)")
        case True
        from lt pos show ?thesis by (intro exI[of _ i]) simp
      next
        case False
        have "detect_rapid_change_loop s newest (i + 1)"
          using "1.prems" lt pos inwin False by (subst (asm) detect_rapid_change_loop.simps) simp
        from "1.IH"(2)[OF lt pos inwin False this]
        obtain k where "i + 1 \<le> k" "k < hist_count s" "0 < ?dt k" by blast
        then show ?thesis by (intro exI[of _ k]) simp
      qed
    qed
  qed
qed

text \<open>A rapid change is only found against an entry strictly older than the newest.\<close>

lemma detect_pos:
  assumes "detect_rapid_change s"
  shows "\<exists>k. 1 \<le> k \<and> k < length (history s)
           \<and> hist_t_ms (history s ! k) < hist_t_ms (history s ! 0)"
proof -
  let ?E = "\<lambda>k. hist s ! nat ((hist_wr s + HIST_N - 1 - k) smod HIST_N)"
  have c2: "\<not> hist_count s < 2"
    using assms by (auto simp: detect_rapid_change_def)
  have det: "detect_rapid_change_loop s (?E 0) 1"
    using assms c2 by (simp add: detect_rapid_change_def Let_def)
  from loop_pos[OF det] obtain k where k: "1 \<le> k" "k < hist_count s"
      "0 < hist_t_ms (?E 0) - hist_t_ms (?E k)"
    by blast
  have n0: "history s ! 0 = ?E 0" using history_nth[of 0 s] c2 by simp
  have "nat k < nat (hist_count s)" using k(1,2) by (simp add: nat_mono_iff)
  then have nk: "history s ! nat k = ?E k" using history_nth[of "nat k" s] k(1) by simp
  have "1 \<le> nat k" "nat k < length (history s)" using k(1,2) by simp_all
  moreover have "hist_t_ms (history s ! nat k) < hist_t_ms (history s ! 0)"
    using k(3) unfolding n0 nk by simp
  ultimately show ?thesis by blast
qed

text \<open>
  The detector clock. Timestamps are \<open>now_ms()\<close>, milliseconds since boot, hence not
  negative. In a state whose recorded timestamps are not negative, a tick whose candidate
  is an alarm has a timestamp above 0: each of \<open>NO_SIGNAL\<close>, \<open>BRADYCARDIA\<close>,
  \<open>TACHYCARDIA\<close> and \<open>RAPID_CHANGE\<close> requires the tick to lie strictly after a
  recorded timestamp.
\<close>

lemma alarm_tick_time:
  assumes ok: "hist_ok s" and nn: "\<forall>h\<in>set (history s). 0 \<le> hist_t_ms h"
    and ns: "0 \<le> no_signal_since_ms s" and ab: "0 \<le> abnormal_since_ms s"
    and c1: "0 < no_signal_ms (cfg s)" and c2: "0 < sustain_ms (cfg s)"
    and alarm: "fst (classify F s r) \<noteq> AlarmType.NONE"
  shows "0 < t_ms r"
proof -
  let ?s1 = "push_hist (track_no_signal F s r) r"
  let ?s3 = "snd (sustained ?s1 r)"
  show ?thesis
  proof (cases "no_signal_since_ms ?s1 \<noteq> 0 \<and> t_ms r - no_signal_since_ms ?s1 \<ge> no_signal_ms (cfg ?s1)")
    case True
    then show ?thesis
      using ns c1 by (auto simp: track_no_signal_def Let_def split: if_splits)
  next
    case nosig: False
    show ?thesis
    proof (cases "fst (sustained s r) = AlarmType.NONE")
      case False
      then show ?thesis
        using ab c2 by (auto simp: sustained_def Let_def split: if_splits)
    next
      case True
      with nosig alarm have det: "detect_rapid_change ?s3"
        by (auto simp: classify_unfold Let_def split: if_splits)
      have "history ?s3 = history (push_hist s r)"
        by (rule history_cong) (simp_all add: push_hist_def)
      also have "\<dots> = take 8 (hist_of r # history s)" by (rule history_push(1)[OF ok])
      finally have H: "history ?s3 = hist_of r # take 7 (history s)" by simp
      from detect_pos[OF det] obtain k where k: "1 \<le> k" "k < length (history ?s3)"
          "hist_t_ms (history ?s3 ! k) < hist_t_ms (history ?s3 ! 0)"
        by blast
      from k(1) have "k \<noteq> 0" by simp
      then obtain m where m: "k = Suc m" by (cases k) simp_all
      have ml: "m < length (take 7 (history s))" using k(2) unfolding H m by simp
      then have "take 7 (history s) ! m \<in> set (take 7 (history s))" by (rule nth_mem)
      then have "take 7 (history s) ! m \<in> set (history s)" by (rule in_set_takeD)
      with nn have "0 \<le> hist_t_ms (take 7 (history s) ! m)" by blast
      moreover have "hist_t_ms (take 7 (history s) ! m) < t_ms r"
        using k(3) unfolding H m by (simp add: hist_of_def)
      ultimately show ?thesis by simp
    qed
  qed
qed

lemma clear_hysteresis_abnormal [simp]:
  "abnormal_since_ms (snd (clear_hysteresis s r c)) = abnormal_since_ms s"
  by (simp add: clear_hysteresis_def Let_def)

lemma update_since:
  assumes "0 \<le> no_signal_since_ms s" "0 \<le> abnormal_since_ms s" "0 \<le> t_ms r"
  shows "0 \<le> no_signal_since_ms (fst (snd (HrAnomalyDetector_update F s r out)))"
    and "0 \<le> abnormal_since_ms (fst (snd (HrAnomalyDetector_update F s r out)))"
proof -
  show "0 \<le> no_signal_since_ms (fst (snd (HrAnomalyDetector_update F s r out)))"
    using assms by (simp add: update_no_signal track_no_signal_def Let_def)
  have "0 \<le> abnormal_since_ms (snd (classify F s r))"
    using assms by (simp add: classify_unfold sustained_def Let_def)
  then show "0 \<le> abnormal_since_ms (fst (snd (HrAnomalyDetector_update F s r out)))"
    by (simp add: update_unfold Let_def)
qed

lemma run_since:
  assumes "0 \<le> no_signal_since_ms s" "0 \<le> abnormal_since_ms s" "\<forall>x\<in>set rs. 0 \<le> t_ms x"
  shows "0 \<le> no_signal_since_ms (HrAnomalyDetector_run F s rs)
         \<and> 0 \<le> abnormal_since_ms (HrAnomalyDetector_run F s rs)"
  using assms
proof (induction rs arbitrary: s)
  case Nil
  then show ?case by simp
next
  case (Cons r rs)
  let ?s' = "fst (snd (HrAnomalyDetector_update F s r (fresh_event F)))"
  have r: "0 \<le> t_ms r" and rs: "\<forall>x\<in>set rs. 0 \<le> t_ms x" using Cons.prems(3) by simp_all
  note u = update_since[OF Cons.prems(1,2) r, of F "fresh_event F"]
  from Cons.IH[OF u rs] show ?case by simp
qed

text \<open>
  C3. Take a detector constructed with a configuration whose \<open>clear_ms\<close> is 3000 and
  whose \<open>no_signal_ms\<close> and \<open>sustain_ms\<close> are positive (the defaults are 3000, 3000 and
  5000), and any readings \<open>pre\<close> fed to it with timestamps that are not negative. Let the
  next tick \<open>r0\<close> produce a candidate other than \<open>NONE\<close>, so that this alarm is active
  after it, and let the following ticks \<open>r1\<close>, \<open>rs\<close>, \<open>r\<close> all produce the candidate
  \<open>NONE\<close>, the first of them not earlier than \<open>r0\<close>. While less than 3000 ms have
  passed since \<open>r1\<close>, the first \<open>NONE\<close> tick, the alarm is held and no event is
  published; at the first tick 3000 ms or more after \<open>r1\<close> the alarm clears with an event
  of type \<open>NONE\<close>.
\<close>

theorem C3_clear_after_3000_ms:
  assumes s0: "s0 = HrAnomalyDetector_run F (HrAnomalyDetector_init c) pre"
    and cfg: "clear_ms c = 3000" "0 < no_signal_ms c" "0 < sustain_ms c"
    and clock: "\<forall>x\<in>set pre. 0 \<le> t_ms x" "t_ms r0 \<le> t_ms r1"
    and alarm: "fst (classify F s0 r0) \<noteq> AlarmType.NONE"
    and quiet: "all_quiet F (HrAnomalyDetector_run F s0 [r0]) (r1 # rs @ [r])"
    and early: "\<forall>x\<in>set rs. t_ms x - t_ms r1 < 3000"
  shows "alarm_events F (HrAnomalyDetector_run F s0 [r0]) (r1 # rs) = []
         \<and> active_alarm (HrAnomalyDetector_run F s0 (r0 # r1 # rs)) = fst (classify F s0 r0)
         \<and> (if t_ms r - t_ms r1 < 3000
             then alarm_events F (HrAnomalyDetector_run F s0 [r0]) (r1 # rs @ [r]) = []
                  \<and> active_alarm (HrAnomalyDetector_run F s0 (r0 # r1 # rs @ [r]))
                      = fst (classify F s0 r0)
             else alarm_events F (HrAnomalyDetector_run F s0 [r0]) (r1 # rs @ [r])
                    = [\<lparr>ev_type = AlarmType.NONE, ev_bpm = bpm r, ev_quality = quality r,
                        ev_t_ms = t_ms r\<rparr>]
                  \<and> active_alarm (HrAnomalyDetector_run F s0 (r0 # r1 # rs @ [r]))
                      = AlarmType.NONE)"
proof -
  have cs: "cfg s0 = c" unfolding s0 by simp
  have ok: "hist_ok s0" and hs: "history s0 = take 8 (rev (map hist_of pre))"
    unfolding s0 by (rule reachable_history)+
  have nn: "\<forall>h\<in>set (history s0). 0 \<le> hist_t_ms h"
  proof
    fix h assume "h \<in> set (history s0)"
    then have "h \<in> set (rev (map hist_of pre))" unfolding hs by (rule in_set_takeD)
    then obtain x where "x \<in> set pre" "h = hist_of x" by auto
    with clock(1) show "0 \<le> hist_t_ms h" by (simp add: hist_of_def)
  qed
  have since: "0 \<le> no_signal_since_ms s0" "0 \<le> abnormal_since_ms s0"
    using run_since[of "HrAnomalyDetector_init c" pre F] clock(1)
    unfolding s0 by (simp_all add: HrAnomalyDetector_init_def)
  have "0 < t_ms r0"
    using alarm_tick_time[OF ok nn since _ _ alarm] cfg(2,3) by (simp add: cs)
  with clock(2) have nz: "t_ms r1 \<noteq> 0" by simp
  have c3: "clear_ms (cfg s0) = 3000" using cfg(1) by (simp add: cs)
  show ?thesis by (rule clear_streak[OF alarm c3 nz quiet early])
qed

lemma scenario_E:
  assumes "f_le F (f_lit F 0.25) q" "\<not> f_lt F q (f_lit F 0.25)"
  shows "alarm_events F (HrAnomalyDetector_init (default_Config F))
           [\<lparr>bpm = 70, quality = q, stable = True, t_ms = 0\<rparr>,
            \<lparr>bpm = 110, quality = q, stable = True, t_ms = 2000\<rparr>]
         = [\<lparr>ev_type = RAPID_CHANGE, ev_bpm = 110, ev_quality = q, ev_t_ms = 2000\<rparr>]"
  using assms
  by (simp add: HrAnomalyDetector_update_def classify_def clear_hysteresis_def sustained_def
      track_no_signal_def push_hist_def detect_rapid_change_def HIST_N_def
      default_Config_def HrAnomalyDetector_init_def Let_def signed_modulo_int_def fresh_event_def
      narrow_int32_def)

lemma abs_int32: "\<bar>d\<bar> < 2147483648 \<Longrightarrow> narrow_int32 \<bar>narrow_int32 d\<bar> = \<bar>d\<bar>"
proof -
  assume a: "\<bar>d\<bar> < 2147483648"
  then have "narrow_int32 d = d" by (intro narrow_int32_id) simp_all
  moreover have "narrow_int32 \<bar>d\<bar> = \<bar>d\<bar>" using a by (intro narrow_int32_id) simp_all
  ultimately show ?thesis by simp
qed

text \<open>
  A reading with a pulse whose quality passes the \<open>>=\<close> test of \<open>usable\<close> resets the
  no-signal onset, so it never takes the \<open>NO_SIGNAL\<close> branch of line 49; this uses that
  a float at or above another is not below it.
\<close>

lemma usable_has_signal:
  assumes "\<forall>a b. f_le F a b \<longrightarrow> \<not> f_lt F b a"
    and "f_le F (min_quality_for_bpm (cfg s)) (quality r)" and "0 < bpm r"
  shows "no_signal_since_ms (track_no_signal F s r) = 0"
  using assms by (auto simp: track_no_signal_def Let_def)

text \<open>
  C8. In a detector that has received the readings \<open>prev\<close>, take a tick that reaches the
  declaration of \<open>usable\<close>, that is the else-branch of the \<open>NO_SIGNAL\<close> test of lines 49
  and 50 (every usable reading with a pulse does, see \<open>usable_has_signal\<close>), with a usable
  reading and no sustained bradycardia or tachycardia candidate. The bpm differences
  against the ring entries are assumed to fit the 32-bit \<open>int\<close> in which the code takes
  them. The candidate is \<open>RAPID_CHANGE\<close> exactly when, among the previous readings still
  in the ring of 8 (at most 7, newest first), one is strictly older than the new reading
  by at most 5000 ms, differs from it by at least 35 bpm, and no reading scanned before it
  is older than 5000 ms: the scan stops at the first such reading. A \<open>RAPID_CHANGE\<close>
  candidate passes the hysteresis unchanged. In particular a fresh detector with the
  default configuration that receives usable readings of 70 bpm at 0 ms and 110 bpm at
  2000 ms publishes exactly one event, \<open>RAPID_CHANGE\<close> at 2000 ms.
\<close>

theorem C8_rapid_change_scan:
  assumes reach: "s = HrAnomalyDetector_run F (HrAnomalyDetector_init c) prev"
    and window: "rapid_change_window_ms c = 5000" and delta: "rapid_change_delta_bpm c = 35"
    and signal: "\<not> (no_signal_since_ms (track_no_signal F s r) \<noteq> 0
                     \<and> no_signal_ms c \<le> t_ms r - no_signal_since_ms (track_no_signal F s r))"
    and usable: "f_le F (min_quality_for_bpm c) (quality r)" "stable r"
    and nosust: "fst (sustained s r) = AlarmType.NONE"
    and olds: "olds = take 7 (rev prev)"
    and range: "\<forall>x\<in>set olds. \<bar>bpm r - bpm x\<bar> < 2147483648"
  shows "fst (classify F s r) =
           (if \<exists>k<length olds.
                 0 < t_ms r - t_ms (olds ! k) \<and> t_ms r - t_ms (olds ! k) \<le> 5000
                 \<and> 35 \<le> \<bar>bpm r - bpm (olds ! k)\<bar>
                 \<and> (\<forall>j<k. t_ms r - t_ms (olds ! j) \<le> 5000)
            then RAPID_CHANGE else AlarmType.NONE)
         \<and> (fst (classify F s r) = RAPID_CHANGE \<longrightarrow> effective_candidate F s r = RAPID_CHANGE)
         \<and> (\<forall>q. f_le F (f_lit F 0.25) q \<and> \<not> f_lt F q (f_lit F 0.25) \<longrightarrow>
               alarm_events F (HrAnomalyDetector_init (default_Config F))
                 [\<lparr>bpm = 70, quality = q, stable = True, t_ms = 0\<rparr>,
                  \<lparr>bpm = 110, quality = q, stable = True, t_ms = 2000\<rparr>]
               = [\<lparr>ev_type = RAPID_CHANGE, ev_bpm = 110, ev_quality = q, ev_t_ms = 2000\<rparr>])"
proof -
  let ?s1 = "push_hist (track_no_signal F s r) r"
  let ?s3 = "snd (sustained ?s1 r)"
  have cs: "cfg s = c" unfolding reach by simp
  have cls: "fst (classify F s r) = (if detect_rapid_change ?s3 then RAPID_CHANGE else AlarmType.NONE)"
    using signal usable nosust by (auto simp: classify_unfold Let_def cs)
  have ok: "hist_ok s" and hs: "history s = take 8 (rev (map hist_of prev))"
    unfolding reach by (rule reachable_history)+
  have "history ?s3 = history (push_hist s r)"
    by (rule history_cong) (simp_all add: push_hist_def)
  also have "\<dots> = take 8 (hist_of r # history s)" by (rule history_push(1)[OF ok])
  also have "\<dots> = hist_of r # map hist_of olds"
    by (simp add: hs olds take_map rev_map)
  finally have H: "history ?s3 = hist_of r # map hist_of olds" .
  have W: "0 \<le> rapid_change_window_ms (cfg ?s3)" by (simp add: cs window)
  let ?P = "\<lambda>k. 0 < t_ms r - t_ms (olds ! k) \<and> t_ms r - t_ms (olds ! k) \<le> 5000
                 \<and> 35 \<le> \<bar>bpm r - bpm (olds ! k)\<bar>
                 \<and> (\<forall>j<k. t_ms r - t_ms (olds ! j) \<le> 5000)"
  have nth: "(hist_of r # map hist_of olds) ! Suc k = hist_of (olds ! k)" if "k < length olds" for k
    using that by simp
  have db: "narrow_int32 \<bar>narrow_int32 (hist_bpm (hist_of r) - hist_bpm (hist_of (olds ! k)))\<bar>
              = \<bar>bpm r - bpm (olds ! k)\<bar>" if "k < length olds" for k
  proof -
    have "olds ! k \<in> set olds" using that by (rule nth_mem)
    with range have "\<bar>bpm r - bpm (olds ! k)\<bar> < 2147483648" by blast
    then show ?thesis by (simp add: hist_of_def abs_int32)
  qed
  have det: "detect_rapid_change ?s3 \<longleftrightarrow> (\<exists>k<length olds. ?P k)"
  proof
    assume "detect_rapid_change ?s3"
    then obtain k where k: "1 \<le> k" "k < length (hist_of r # map hist_of olds)"
      "0 < hist_t_ms (hist_of r) - hist_t_ms ((hist_of r # map hist_of olds) ! k)"
      "hist_t_ms (hist_of r) - hist_t_ms ((hist_of r # map hist_of olds) ! k) \<le> 5000"
      "35 \<le> narrow_int32 \<bar>narrow_int32
               (hist_bpm (hist_of r) - hist_bpm ((hist_of r # map hist_of olds) ! k))\<bar>"
      "\<forall>j. 1 \<le> j \<and> j < k \<longrightarrow>
          hist_t_ms (hist_of r) - hist_t_ms ((hist_of r # map hist_of olds) ! j) \<le> 5000"
      unfolding detect_history[OF W] H by (auto simp: cs window delta)
    from k(1) have "k \<noteq> 0" by simp
    then obtain m where m: "k = Suc m" by (cases k) simp_all
    have ml: "m < length olds" using k(2) m by simp
    have "t_ms r - t_ms (olds ! j) \<le> 5000" if "j < m" for j
    proof -
      have "1 \<le> Suc j \<and> Suc j < k" using that m by simp
      with k(6) have "hist_t_ms (hist_of r) - hist_t_ms ((hist_of r # map hist_of olds) ! Suc j) \<le> 5000"
        by blast
      moreover have "j < length olds" using that ml by simp
      ultimately show ?thesis by (simp add: hist_of_def)
    qed
    moreover have "35 \<le> \<bar>bpm r - bpm (olds ! m)\<bar>"
      using k(5) unfolding m nth[OF ml] db[OF ml] .
    ultimately have "?P m" using k(3,4) ml unfolding m by (simp add: hist_of_def)
    with ml show "\<exists>k<length olds. ?P k" by blast
  next
    assume "\<exists>k<length olds. ?P k"
    then obtain m where ml: "m < length olds" and pm: "?P m" by blast
    have "hist_t_ms (hist_of r) - hist_t_ms ((hist_of r # map hist_of olds) ! j) \<le> 5000"
      if "1 \<le> j \<and> j < Suc m" for j
    proof -
      from that have "j \<noteq> 0" by simp
      then obtain i where i: "j = Suc i" by (cases j) simp_all
      with that have "i < m" by simp
      with pm ml show ?thesis unfolding i by (simp add: hist_of_def)
    qed
    moreover have "35 \<le> narrow_int32 \<bar>narrow_int32
               (hist_bpm (hist_of r) - hist_bpm ((hist_of r # map hist_of olds) ! Suc m))\<bar>"
      using pm unfolding nth[OF ml] db[OF ml] by simp
    ultimately have "\<exists>k. 1 \<le> k \<and> k < length (hist_of r # map hist_of olds)
      \<and> 0 < hist_t_ms (hist_of r) - hist_t_ms ((hist_of r # map hist_of olds) ! k)
      \<and> hist_t_ms (hist_of r) - hist_t_ms ((hist_of r # map hist_of olds) ! k) \<le> 5000
      \<and> 35 \<le> narrow_int32 \<bar>narrow_int32
               (hist_bpm (hist_of r) - hist_bpm ((hist_of r # map hist_of olds) ! k))\<bar>
      \<and> (\<forall>j. 1 \<le> j \<and> j < k \<longrightarrow>
          hist_t_ms (hist_of r) - hist_t_ms ((hist_of r # map hist_of olds) ! j) \<le> 5000)"
      using pm ml by (intro exI[of _ "Suc m"]) (simp add: hist_of_def)
    then show "detect_rapid_change ?s3"
      unfolding detect_history[OF W] H by (simp add: cs window delta)
  qed
  have a: "fst (classify F s r) = (if \<exists>k<length olds. ?P k then RAPID_CHANGE else AlarmType.NONE)"
    unfolding cls det ..
  have b: "fst (classify F s r) = RAPID_CHANGE \<longrightarrow> effective_candidate F s r = RAPID_CHANGE"
    by (simp add: effective_candidate_unfold clear_hysteresis_def)
  have c: "\<forall>q. f_le F (f_lit F 0.25) q \<and> \<not> f_lt F q (f_lit F 0.25) \<longrightarrow>
               alarm_events F (HrAnomalyDetector_init (default_Config F))
                 [\<lparr>bpm = 70, quality = q, stable = True, t_ms = 0\<rparr>,
                  \<lparr>bpm = 110, quality = q, stable = True, t_ms = 2000\<rparr>]
               = [\<lparr>ev_type = RAPID_CHANGE, ev_bpm = 110, ev_quality = q, ev_t_ms = 2000\<rparr>]"
    using scenario_E[of F] by blast
  show ?thesis by (rule conjI[OF a conjI[OF b c]])
qed

subsection \<open>Concrete detector runs\<close>

lemmas det_eval = HrAnomalyDetector_update_def classify_def clear_hysteresis_def sustained_def
  track_no_signal_def push_hist_def detect_rapid_change_def HIST_N_def
  exact_ops_def rounded_ops_def default_Config_def HrAnomalyDetector_init_def Let_def
  signed_modulo_int_def fresh_event_def low_reading_def normal_reading_def detector0_def
  narrow_int32_def

theorem C2_witness:
  "fst (HrAnomalyDetector_update exact_ops
          (HrAnomalyDetector_run exact_ops detector0 [low_reading 1000])
          (low_reading 4000) (fresh_event exact_ops))
   \<and> effective_candidate exact_ops
         (HrAnomalyDetector_run exact_ops detector0 [low_reading 1000]) (low_reading 4000) = NO_SIGNAL
   \<and> active_alarm (HrAnomalyDetector_run exact_ops detector0 [low_reading 1000]) = AlarmType.NONE
   \<and> snd (snd (HrAnomalyDetector_update exact_ops
          (HrAnomalyDetector_run exact_ops detector0 [low_reading 1000])
          (low_reading 4000) (fresh_event exact_ops)))
       = \<lparr>ev_type = NO_SIGNAL, ev_bpm = 70, ev_quality = 0, ev_t_ms = 4000\<rparr>
   \<and> distinct_adj (AlarmType.NONE # map ev_type
         (alarm_events exact_ops (HrAnomalyDetector_run exact_ops detector0 [low_reading 1000])
            [low_reading 4000, normal_reading 5000, normal_reading 6000, normal_reading 8000]))"
proof -
  let ?s = "HrAnomalyDetector_run exact_ops detector0 [low_reading 1000]"
  let ?U = "HrAnomalyDetector_update exact_ops ?s (low_reading 4000) (fresh_event exact_ops)"
  have eq: "?U = (fst ?U, fst (snd ?U), snd (snd ?U))" by simp
  have e: "effective_candidate exact_ops ?s (low_reading 4000) = NO_SIGNAL"
    by (simp add: effective_candidate_def det_eval)
  have a: "active_alarm ?s = AlarmType.NONE" by (simp add: det_eval)
  note t = C2_event_iff_candidate_differs[OF eq,
      of "[low_reading 4000, normal_reading 5000, normal_reading 6000, normal_reading 8000]"]
  from t have f: "fst ?U" unfolding e a by simp
  have r: "bpm (low_reading 4000) = 70" "quality (low_reading 4000) = 0"
    "t_ms (low_reading 4000) = 4000"
    by (simp_all add: low_reading_def)
  from t have "if fst ?U
     then snd (snd ?U) = \<lparr>ev_type = effective_candidate exact_ops ?s (low_reading 4000),
            ev_bpm = bpm (low_reading 4000), ev_quality = quality (low_reading 4000),
            ev_t_ms = t_ms (low_reading 4000)\<rparr>
     else snd (snd ?U) = fresh_event exact_ops"
    by blast
  with f have o: "snd (snd ?U)
       = \<lparr>ev_type = NO_SIGNAL, ev_bpm = 70, ev_quality = 0, ev_t_ms = 4000\<rparr>"
    unfolding e r by (simp only: if_True)
  from t have d: "distinct_adj (AlarmType.NONE # map ev_type
         (alarm_events exact_ops ?s
            [low_reading 4000, normal_reading 5000, normal_reading 6000, normal_reading 8000]))"
    unfolding a by blast
  from f e a o d show ?thesis by blast
qed

theorem C3_witness:
  "alarm_events exact_ops (HrAnomalyDetector_run exact_ops detector0 [low_reading 1000, low_reading 4000])
      [normal_reading 5000, normal_reading 6000] = []
   \<and> active_alarm (HrAnomalyDetector_run exact_ops detector0
        [low_reading 1000, low_reading 4000, normal_reading 5000, normal_reading 6000]) = NO_SIGNAL
   \<and> alarm_events exact_ops (HrAnomalyDetector_run exact_ops detector0 [low_reading 1000, low_reading 4000])
      [normal_reading 5000, normal_reading 6000, normal_reading 8000]
      = [\<lparr>ev_type = AlarmType.NONE, ev_bpm = 75, ev_quality = 1, ev_t_ms = 8000\<rparr>]
   \<and> active_alarm (HrAnomalyDetector_run exact_ops detector0
        [low_reading 1000, low_reading 4000, normal_reading 5000, normal_reading 6000,
         normal_reading 8000]) = AlarmType.NONE"
proof -
  let ?c = "default_Config exact_ops"
  let ?s0 = "HrAnomalyDetector_run exact_ops (HrAnomalyDetector_init ?c) [low_reading 1000]"
  have d: "detector0 = HrAnomalyDetector_init ?c" by (simp add: detector0_def)
  have c: "clear_ms ?c = 3000" "0 < no_signal_ms ?c" "0 < sustain_ms ?c"
    by (simp_all add: default_Config_def)
  have k: "\<forall>x\<in>set [low_reading 1000]. 0 \<le> t_ms x"
    "t_ms (low_reading 4000) \<le> t_ms (normal_reading 5000)"
    by (simp_all add: low_reading_def normal_reading_def)
  have n: "fst (classify exact_ops ?s0 (low_reading 4000)) = NO_SIGNAL"
    unfolding d[symmetric] by (simp add: det_eval)
  then have a: "fst (classify exact_ops ?s0 (low_reading 4000)) \<noteq> AlarmType.NONE" by simp
  have q: "all_quiet exact_ops (HrAnomalyDetector_run exact_ops ?s0 [low_reading 4000])
             (normal_reading 5000 # [normal_reading 6000] @ [normal_reading 8000])"
    unfolding d[symmetric] by (simp add: det_eval)
  have e: "\<forall>x\<in>set [normal_reading 6000]. t_ms x - t_ms (normal_reading 5000) < 3000"
    by (simp add: normal_reading_def)
  have r: "HrAnomalyDetector_run exact_ops ?s0 (low_reading 4000 # xs)
            = HrAnomalyDetector_run exact_ops detector0 (low_reading 1000 # low_reading 4000 # xs)" for xs
    unfolding d by simp
  from C3_clear_after_3000_ms[OF refl c k a q e]
  show ?thesis unfolding r n by (simp add: normal_reading_def)
qed



text \<open>
  Outside that range the 32-bit difference wraps: after a usable reading of \<open>INT_MAX\<close>
  bpm, a usable reading of -1 bpm two seconds later has \<open>dbpm = INT_MIN\<close>, which is not
  at least 35, and no event is published.
\<close>

lemma rapid_change_wraps:
  "alarm_events exact_ops detector0 [usable_reading 2147483647 0, usable_reading (- 1) 2000] = []"
  by (simp add: det_eval usable_reading_def)

theorem C8_witness:
  "fst (classify exact_ops
         (HrAnomalyDetector_run exact_ops (HrAnomalyDetector_init (default_Config exact_ops))
            [usable_reading 70 0])
         (usable_reading 110 2000)) = RAPID_CHANGE
   \<and> alarm_events exact_ops (HrAnomalyDetector_init (default_Config exact_ops))
         [usable_reading 70 0, usable_reading 110 2000]
       = [\<lparr>ev_type = RAPID_CHANGE, ev_bpm = 110, ev_quality = 1, ev_t_ms = 2000\<rparr>]"
proof -
  let ?c = "default_Config exact_ops"
  let ?s = "HrAnomalyDetector_run exact_ops (HrAnomalyDetector_init ?c) [usable_reading 70 0]"
  let ?r = "usable_reading 110 2000"
  have w: "rapid_change_window_ms ?c = 5000" and d: "rapid_change_delta_bpm ?c = 35"
    by (simp_all add: default_Config_def)
  have sg: "\<not> (no_signal_since_ms (track_no_signal exact_ops ?s ?r) \<noteq> 0
               \<and> no_signal_ms ?c \<le> t_ms ?r - no_signal_since_ms (track_no_signal exact_ops ?s ?r))"
    by (simp add: det_eval usable_reading_def)
  have u: "f_le exact_ops (min_quality_for_bpm ?c) (quality ?r)" "stable ?r"
    by (simp_all add: usable_reading_def default_Config_def exact_ops_def rounded_ops_def)
  have ns: "fst (sustained ?s ?r) = AlarmType.NONE"
    by (simp add: det_eval usable_reading_def)
  have q: "f_le exact_ops (f_lit exact_ops 0.25) 1 \<and> \<not> f_lt exact_ops 1 (f_lit exact_ops 0.25)"
    by (simp add: exact_ops_def rounded_ops_def)
  have rg: "\<forall>x\<in>set (take 7 (rev [usable_reading 70 0])). \<bar>bpm ?r - bpm x\<bar> < 2147483648"
    by (simp add: usable_reading_def)
  note t = C8_rapid_change_scan[OF refl w d sg u ns refl rg]
  from t have "fst (classify exact_ops ?s ?r) = RAPID_CHANGE"
    by (simp add: usable_reading_def)
  moreover from t q have "alarm_events exact_ops (HrAnomalyDetector_init ?c)
         [usable_reading 70 0, usable_reading 110 2000]
       = [\<lparr>ev_type = RAPID_CHANGE, ev_bpm = 110, ev_quality = 1, ev_t_ms = 2000\<rparr>]"
    unfolding usable_reading_def by blast
  ultimately show ?thesis by (rule conjI)
qed

end
